theory Spec2Isabelle
  imports Main "HOL-Library.Extended_Nat"
begin

section \<open>Strings and characters\<close>

text \<open>
  A JavaScript string is modelled as a \<^typ>\<open>string\<close>, one \<^typ>\<open>char\<close> for each code unit;
  the masks, digits and messages of the source all lie in the range of \<^typ>\<open>char\<close>.
  \<open>\d\<close> in a JavaScript regular expression is exactly \<open>[0-9]\<close> and \<open>\D\<close> its complement.
\<close>

definition backslash :: char where
  "backslash = CHR 0x5C"

definition is_digit :: "char \<Rightarrow> bool" where
  "is_digit c \<longleftrightarrow> c \<in> set ''0123456789''"

text \<open>\<open>s.replace(/\D/g, '')\<close>\<close>

definition stripNonDigits :: "string \<Rightarrow> string" where
  "stripNonDigits s = filter is_digit s"

text \<open>\<open>s[i]\<close> for an index that may be negative or past the end: \<open>None\<close> is \<open>undefined\<close>.\<close>

definition charAt :: "string \<Rightarrow> int \<Rightarrow> char option" where
  "charAt s i = (if 0 \<le> i \<and> i < int (length s) then Some (s ! nat i) else None)"

section \<open>The regular expressions built by \<open>parseMask\<close>\<close>

text \<open>
  The syntax characters of a JavaScript pattern; \<open>escapeRegExp\<close> puts a backslash in
  front of each of them: \<open>string.replace(/[.*+?^${}()|[\]\\]/g, '\\$&')\<close>.
\<close>

definition syntaxChars :: string where
  "syntaxChars = ''.*+?^${}()|[]'' @ [backslash]"

definition escapeRegExp :: "string \<Rightarrow> string" where
  "escapeRegExp s = concat (map (\<lambda>c. if c \<in> set syntaxChars then [backslash, c] else [c]) s)"

text \<open>
  The pattern fragment the masks use: an item is either one literal character (a plain
  character, or an escaped syntax character) or the group \<open>(\d?)\<close>, an optional digit.
  \<open>RegExp\<close> is \<open>new RegExp(source)\<close> for a source anchored by \<open>^\<close> and \<open>$\<close>; \<open>None\<close> stands
  for a source outside this fragment (where the constructor may throw a SyntaxError).
\<close>

datatype re_item = Lit char | OptDigit

definition optDigitSrc :: string where
  "optDigitSrc = [CHR ''('', backslash, CHR ''d'', CHR ''?'', CHR '')'']"

fun regexBody :: "string \<Rightarrow> re_item list option" where
  "regexBody [] = None"
| "regexBody (c # cs) =
     (if c = CHR ''$'' \<and> cs = [] then Some []
      else if c = backslash then
        (case cs of
           [] \<Rightarrow> None
         | e # r \<Rightarrow> if e \<in> set syntaxChars then map_option ((#) (Lit e)) (regexBody r) else None)
      else if c = CHR ''('' then
        (case cs of
           b # d # q # p # r \<Rightarrow>
             if [b, d, q, p] = [backslash, CHR ''d'', CHR ''?'', CHR '')'']
             then map_option ((#) OptDigit) (regexBody r) else None
         | _ \<Rightarrow> None)
      else if c \<in> set syntaxChars then None
      else map_option ((#) (Lit c)) (regexBody cs))"

definition RegExp :: "string \<Rightarrow> re_item list option" where
  "RegExp src = (case src of [] \<Rightarrow> None | c # cs \<Rightarrow> if c = CHR ''^'' then regexBody cs else None)"

text \<open>
  \<open>regex.test(s)\<close> for an anchored pattern: the items must consume the whole string. The
  optional digit is greedy and backtracks to the empty match.
\<close>

fun regex_test :: "re_item list \<Rightarrow> string \<Rightarrow> bool" where
  "regex_test [] s = (s = [])"
| "regex_test (Lit c # r) s = (case s of [] \<Rightarrow> False | x # xs \<Rightarrow> x = c \<and> regex_test r xs)"
| "regex_test (OptDigit # r) s =
     ((case s of [] \<Rightarrow> False | x # xs \<Rightarrow> is_digit x \<and> regex_test r xs) \<or> regex_test r s)"

section \<open>\<open>parseMask\<close>\<close>

datatype error = Error string | TypeError | SyntaxError | DOMSyntaxError

record maskData =
  regex :: "re_item list"
  placeholders :: "(nat \<times> nat) list"
  mask_str :: string
  placeholderChar :: char
  digitCount :: nat

text \<open>
  The loop of \<open>parseMask\<close> over \<open>i\<close>, with its four accumulators \<open>regexStr\<close>, \<open>placeholders\<close>,
  \<open>charIndex\<close> and \<open>digitCount\<close>.
\<close>

function parseMask_loop ::
  "string \<Rightarrow> nat \<Rightarrow> string \<Rightarrow> (nat \<times> nat) list \<Rightarrow> nat \<Rightarrow> nat
     \<Rightarrow> string \<times> (nat \<times> nat) list \<times> nat \<times> nat" where
  "parseMask_loop m i regexStr phs charIndex dc =
     (if i < length m then
        (if m ! i = CHR ''#''
         then parseMask_loop m (i + 1) (regexStr @ optDigitSrc) (phs @ [(i, charIndex)])
                (charIndex + 1) (dc + 1)
         else parseMask_loop m (i + 1) (regexStr @ escapeRegExp [m ! i]) phs charIndex dc)
      else (regexStr, phs, charIndex, dc))"
  by pat_completeness auto
termination
  by (relation "measure (\<lambda>(m, i, _). length m - i)") auto

definition parseMask :: "string \<Rightarrow> error + maskData" where
  "parseMask m =
     (case parseMask_loop m 0 ''^'' [] 0 0 of
        (regexStr, phs, charIndex, dc) \<Rightarrow>
          (case RegExp (regexStr @ ''$'') of
             None \<Rightarrow> Inl SyntaxError
           | Some r \<Rightarrow>
               Inr \<lparr>regex = r, placeholders = phs, mask_str = m,
                    placeholderChar = CHR ''#'', digitCount = dc\<rparr>))"

text \<open>\<open>x = f(); g(x)\<close> where \<open>f\<close> may throw: the exception skips \<open>g\<close>.\<close>

definition bind_err :: "error + 'a \<Rightarrow> ('a \<Rightarrow> error + 'b) \<Rightarrow> error + 'b" where
  "bind_err x f = (case x of Inl e \<Rightarrow> Inl e | Inr v \<Rightarrow> f v)"

text \<open>\<open>this.options.masks.map(mask => this.parseMask(mask))\<close>\<close>

fun parseMasks :: "string list \<Rightarrow> error + maskData list" where
  "parseMasks [] = Inr []"
| "parseMasks (m # ms) =
     bind_err (parseMask m) (\<lambda>d. bind_err (parseMasks ms) (\<lambda>ds. Inr (d # ds)))"

section \<open>Rendering digits into a mask, and choosing the best mask\<close>

text \<open>
  The inner loop of \<open>handleInput\<close> (and, letter for letter, of \<open>setValue\<close>): a placeholder
  takes the next digit when one is left and appends the empty string otherwise; the loop
  has no \<open>break\<close>.
\<close>

function format_loop :: "maskData \<Rightarrow> string \<Rightarrow> nat \<Rightarrow> nat \<Rightarrow> string \<Rightarrow> string" where
  "format_loop maskData digits i digitIndex formatted =
     (if i < length (mask_str maskData) then
        (if mask_str maskData ! i = placeholderChar maskData then
           (if digitIndex < length digits
            then format_loop maskData digits (i + 1) (digitIndex + 1)
                   (formatted @ [digits ! digitIndex])
            else format_loop maskData digits (i + 1) digitIndex (formatted @ []))
         else format_loop maskData digits (i + 1) digitIndex
                (formatted @ [mask_str maskData ! i]))
      else formatted)"
  by pat_completeness auto
termination
  by (relation "measure (\<lambda>(maskData, digits, i, _). length (mask_str maskData) - i)") auto

definition render :: "maskData \<Rightarrow> string \<Rightarrow> string" where
  "render maskData digits = format_loop maskData digits 0 0 []"

text \<open>
  One pass of the outer loop: the triple is \<open>(bestMatchIndex, bestMatchDiff, bestFormatted)\<close>,
  starting at \<open>(-1, Infinity, '')\<close>.
\<close>

definition select_step :: "maskData list \<Rightarrow> string \<Rightarrow> nat \<Rightarrow> int \<times> enat \<times> string \<Rightarrow> int \<times> enat \<times> string" where
  "select_step masksData digits maskIndex best =
     (let maskData = masksData ! maskIndex;
          formatted = render maskData digits
      in if regex_test (regex maskData) formatted then
           (let diff = nat \<bar>int (digitCount maskData) - int (length digits)\<bar>
            in if enat diff < fst (snd best) then (int maskIndex, enat diff, formatted) else best)
         else best)"

function select_loop :: "maskData list \<Rightarrow> string \<Rightarrow> nat \<Rightarrow> int \<times> enat \<times> string \<Rightarrow> int \<times> enat \<times> string" where
  "select_loop masksData digits maskIndex best =
     (if maskIndex < length masksData
      then select_loop masksData digits (maskIndex + 1) (select_step masksData digits maskIndex best)
      else best)"
  by pat_completeness auto
termination
  by (relation "measure (\<lambda>(masksData, digits, maskIndex, _). length masksData - maskIndex)") auto

definition selectBest :: "maskData list \<Rightarrow> string \<Rightarrow> int \<times> enat \<times> string" where
  "selectBest masksData digits = select_loop masksData digits 0 (- 1, \<infinity>, [])"

section \<open>The mask instance\<close>

text \<open>
  The fields of a \<open>PhoneNumberMask\<close> that the handlers read and write, with the two
  properties of the input element they write (\<open>value\<close> and the custom validity message) and
  the two things \<open>getErrorMessage\<close> reads (\<open>options.messages\<close>, \<open>navigator.languages\<close>). The
  selection of the input element is read as an argument and written as a result.
\<close>

record phone =
  masksData :: "maskData list"
  activeMaskIndex :: int
  messages :: "string \<Rightarrow> string option"
  userLanguages :: "string list"
  input_value :: string
  customValidity :: string

text \<open>\<open>this.masksData[this.activeMaskIndex]\<close>; \<open>None\<close> is \<open>undefined\<close>.\<close>

definition activeMaskData :: "phone \<Rightarrow> maskData option" where
  "activeMaskData st =
     (if 0 \<le> activeMaskIndex st \<and> activeMaskIndex st < int (length (masksData st))
      then Some (masksData st ! nat (activeMaskIndex st)) else None)"

definition getUnmaskedValue :: "phone \<Rightarrow> string" where
  "getUnmaskedValue st = stripNonDigits (input_value st)"

definition truthy :: "string option \<Rightarrow> bool" where
  "truthy v = (case v of None \<Rightarrow> False | Some s \<Rightarrow> s \<noteq> [])"

definition DEFAULT_MESSAGES_en :: string where
  "DEFAULT_MESSAGES_en = ''Please enter a valid phone number.''"

definition DEFAULT_MESSAGES :: "string \<Rightarrow> string option" where
  "DEFAULT_MESSAGES = map_of
     [(''en'', DEFAULT_MESSAGES_en),
      (''en-US'', DEFAULT_MESSAGES_en),
      (''pt'', ''Digite um n'' @ [CHR 0xFA] @ ''mero de telefone v'' @ [CHR 0xE1] @ ''lido.''),
      (''pt-BR'', ''Digite um n'' @ [CHR 0xFA] @ ''mero de telefone v'' @ [CHR 0xE1] @ ''lido.''),
      (''es'', ''Ingrese un n'' @ [CHR 0xFA] @ ''mero de tel'' @ [CHR 0xE9] @ ''fono v'' @ [CHR 0xE1] @ ''lido.''),
      (''fr'', ''Veuillez entrer un num'' @ [CHR 0xE9] @ ''ro de t'' @ [CHR 0xE9] @ ''l'' @ [CHR 0xE9] @ ''phone valide.''),
      (''de'', ''Bitte geben Sie eine g'' @ [CHR 0xFC] @ ''ltige Telefonnummer ein.'')]"

fun lookupMessage :: "(string \<Rightarrow> string option) \<Rightarrow> string list \<Rightarrow> string option" where
  "lookupMessage msgs [] = None"
| "lookupMessage msgs (language # rest) =
     (if truthy (msgs language) then msgs language
      else (let generalLanguage = takeWhile (\<lambda>c. c \<noteq> CHR ''-'') language
            in if truthy (msgs generalLanguage) then msgs generalLanguage
               else lookupMessage msgs rest))"

definition getErrorMessage :: "phone \<Rightarrow> string" where
  "getErrorMessage st =
     (case lookupMessage (messages st) (userLanguages st) of
        Some msg \<Rightarrow> msg
      | None \<Rightarrow>
          (case messages st ''en'' of
             None \<Rightarrow> DEFAULT_MESSAGES_en
           | Some msg \<Rightarrow> if msg \<noteq> [] then msg else DEFAULT_MESSAGES_en))"

text \<open>
  \<open>validateInput\<close>: the custom validity message is empty when the field is valid. Reading
  \<open>maskData.regex\<close> of an \<open>undefined\<close> \<open>maskData\<close> is a TypeError.
\<close>

definition validateInput :: "phone \<Rightarrow> error + phone" where
  "validateInput st =
     (if activeMaskIndex st \<noteq> - 1 then
        (case activeMaskData st of
           None \<Rightarrow> Inl TypeError
         | Some maskData \<Rightarrow>
             (let isValidRegex = regex_test (regex maskData) (input_value st);
                  unmaskedValue = getUnmaskedValue st;
                  isValidDigitCount = (length unmaskedValue = digitCount maskData)
              in if isValidRegex \<and> isValidDigitCount
                 then Inr (st\<lparr>customValidity := []\<rparr>)
                 else Inr (st\<lparr>customValidity := getErrorMessage st\<rparr>)))
      else Inr (st\<lparr>customValidity := (if input_value st \<noteq> [] then [] else getErrorMessage st)\<rparr>))"

text \<open>
  The part \<open>handleInput\<close> and \<open>setValue\<close> share: select, store the index, write the best
  rendering (or the bare digits when there is none) to the field, validate.
\<close>

definition applyBest :: "phone \<Rightarrow> string \<Rightarrow> error + phone" where
  "applyBest st digits =
     (case selectBest (masksData st) digits of
        (bestMatchIndex, bestMatchDiff, bestFormatted) \<Rightarrow>
          (let st1 = st\<lparr>activeMaskIndex := bestMatchIndex\<rparr>
           in if bestMatchIndex \<noteq> - 1 then
                (case activeMaskData st1 of
                   None \<Rightarrow> Inl TypeError
                 | Some maskData \<Rightarrow>
                     validateInput
                       (st1\<lparr>input_value :=
                          (if regex_test (regex maskData) bestFormatted then bestFormatted else digits)\<rparr>))
              else validateInput (st1\<lparr>input_value := digits\<rparr>)))"

text \<open>\<open>setValue(value)\<close>; \<open>None\<close> is \<open>null\<close> or \<open>undefined\<close>.\<close>

definition setValue :: "phone \<Rightarrow> string option \<Rightarrow> error + phone" where
  "setValue st v =
     (case v of
        None \<Rightarrow> validateInput (st\<lparr>input_value := [], activeMaskIndex := - 1\<rparr>)
      | Some s \<Rightarrow>
          if s = [] then validateInput (st\<lparr>input_value := [], activeMaskIndex := - 1\<rparr>)
          else applyBest st (stripNonDigits s))"

section \<open>Cursor positions\<close>

text \<open>
  \<open>adjustCursorPosition\<close>: \<open>selectionStart\<close> is what the input element reports; the result
  is the position passed to \<open>setSelectionRange\<close>, if it is called.
\<close>

function adjust_loop :: "maskData option \<Rightarrow> nat \<Rightarrow> nat \<Rightarrow> error + nat" where
  "adjust_loop md len cursorPosition =
     (if cursorPosition < len then
        (case md of
           None \<Rightarrow> Inl TypeError
         | Some maskData \<Rightarrow>
             if charAt (mask_str maskData) (int cursorPosition) \<noteq> Some (placeholderChar maskData)
             then adjust_loop md len (cursorPosition + 1)
             else Inr cursorPosition)
      else Inr cursorPosition)"
  by pat_completeness auto
termination
  by (relation "measure (\<lambda>(md, len, cursorPosition). len - cursorPosition)") auto

definition adjustCursorPosition :: "phone \<Rightarrow> nat \<Rightarrow> error + nat option" where
  "adjustCursorPosition st selectionStart =
     (if activeMaskIndex st \<noteq> - 1
      then bind_err (adjust_loop (activeMaskData st) (length (input_value st)) selectionStart)
             (\<lambda>cursorPosition. Inr (Some cursorPosition))
      else Inr None)"

text \<open>
  \<open>handleInput\<close>: the field already holds what the user typed; \<open>selectionStart\<close> is read
  by \<open>adjustCursorPosition\<close> after the field has been rewritten.
\<close>

definition handleInput :: "phone \<Rightarrow> string \<Rightarrow> nat \<Rightarrow> error + phone \<times> nat option" where
  "handleInput st inputType selectionStart =
     (if inputType = ''deleteContentBackward'' \<or> inputType = ''deleteContentForward''
      then Inr (st, None)
      else bind_err (applyBest st (stripNonDigits (input_value st)))
             (\<lambda>st1. bind_err (adjustCursorPosition st1 selectionStart) (\<lambda>c. Inr (st1, c))))"

text \<open>\<open>getCursorPosInUnmaskedValue\<close>: the loop reads \<open>maskData.mask[i]\<close> for every \<open>i\<close> below the position.\<close>

function unmasked_loop :: "maskData option \<Rightarrow> nat \<Rightarrow> nat \<Rightarrow> nat \<Rightarrow> error + nat" where
  "unmasked_loop md formattedCursorPos i unmaskedCursorPos =
     (if i < formattedCursorPos then
        (case md of
           None \<Rightarrow> Inl TypeError
         | Some maskData \<Rightarrow>
             unmasked_loop md formattedCursorPos (i + 1)
               (if charAt (mask_str maskData) (int i) = Some (placeholderChar maskData)
                then unmaskedCursorPos + 1 else unmaskedCursorPos))
      else Inr unmaskedCursorPos)"
  by pat_completeness auto
termination
  by (relation "measure (\<lambda>(md, formattedCursorPos, i, _). formattedCursorPos - i)") auto

definition getCursorPosInUnmaskedValue :: "phone \<Rightarrow> nat \<Rightarrow> error + nat" where
  "getCursorPosInUnmaskedValue st formattedCursorPos =
     (if activeMaskIndex st = - 1 then Inr formattedCursorPos
      else unmasked_loop (activeMaskData st) formattedCursorPos 0 0)"

text \<open>
  \<open>setCursorPositionInFormatted\<close>: the \<open>for\<close> loop with its \<open>break\<close>, then the \<open>while\<close> loop;
  the result is the position passed to \<open>setSelectionRange\<close>.
\<close>

function formatted_loop :: "maskData \<Rightarrow> nat \<Rightarrow> nat \<Rightarrow> nat \<Rightarrow> nat \<Rightarrow> nat" where
  "formatted_loop maskData unmaskedCursorPos i formattedCursorPos unmaskedCount =
     (if i < length (mask_str maskData) then
        (if mask_str maskData ! i = placeholderChar maskData then
           (if unmaskedCount = unmaskedCursorPos then i
            else formatted_loop maskData unmaskedCursorPos (i + 1) (formattedCursorPos + 1)
                   (unmaskedCount + 1))
         else formatted_loop maskData unmaskedCursorPos (i + 1) (formattedCursorPos + 1)
                unmaskedCount)
      else formattedCursorPos)"
  by pat_completeness auto
termination
  by (relation "measure (\<lambda>(maskData, k, i, _). length (mask_str maskData) - i)") auto

function skip_literals :: "maskData \<Rightarrow> nat \<Rightarrow> nat" where
  "skip_literals maskData formattedCursorPos =
     (if formattedCursorPos < length (mask_str maskData)
         \<and> mask_str maskData ! formattedCursorPos \<noteq> placeholderChar maskData
      then skip_literals maskData (formattedCursorPos + 1)
      else formattedCursorPos)"
  by pat_completeness auto
termination
  by (relation "measure (\<lambda>(maskData, p). length (mask_str maskData) - p)") auto

definition setCursorPositionInFormatted :: "phone \<Rightarrow> nat \<Rightarrow> error + nat" where
  "setCursorPositionInFormatted st unmaskedCursorPos =
     (if activeMaskIndex st = - 1 then Inr unmaskedCursorPos
      else (case activeMaskData st of
              None \<Rightarrow> Inl TypeError
            | Some maskData \<Rightarrow>
                Inr (skip_literals maskData (formatted_loop maskData unmaskedCursorPos 0 0 0))))"

section \<open>Backspace and Delete\<close>

record key_event =
  keyCode :: int
  ctrlKey :: bool
  metaKey :: bool
  shiftKey :: bool

text \<open>The \<open>while\<close> loop of the Backspace branch, from \<open>start - 1\<close> downwards.\<close>

function prevDigit_loop :: "maskData option \<Rightarrow> int \<Rightarrow> error + int" where
  "prevDigit_loop md prevDigitPos =
     (if prevDigitPos \<ge> 0 then
        (case md of
           None \<Rightarrow> Inl TypeError
         | Some maskData \<Rightarrow>
             if charAt (mask_str maskData) prevDigitPos \<noteq> Some (placeholderChar maskData)
             then prevDigit_loop md (prevDigitPos - 1)
             else Inr prevDigitPos)
      else Inr prevDigitPos)"
  by pat_completeness auto
termination
  by (relation "measure (\<lambda>(md, prevDigitPos). nat (prevDigitPos + 1))") auto

text \<open>The \<open>while\<close> loop of the Delete branch, from \<open>start\<close> upwards.\<close>

function nextDigit_loop :: "maskData option \<Rightarrow> nat \<Rightarrow> error + nat" where
  "nextDigit_loop md nextDigitPos =
     (case md of
        None \<Rightarrow> Inl TypeError
      | Some maskData \<Rightarrow>
          if nextDigitPos < length (mask_str maskData)
             \<and> mask_str maskData ! nextDigitPos \<noteq> placeholderChar maskData
          then nextDigit_loop md (nextDigitPos + 1)
          else Inr nextDigitPos)"
  by pat_completeness auto
termination
  by (relation "measure (\<lambda>(md, p). (case md of None \<Rightarrow> 0 | Some maskData \<Rightarrow> length (mask_str maskData) - p))") auto

text \<open>
  Lines 133 to 164 of \<open>handleKeyDown\<close>: from the selection \<open>start\<close>, \<open>end\<close> and the key, the
  new unmasked value and the unmasked cursor position.
\<close>

definition deleteDigits :: "phone \<Rightarrow> int \<Rightarrow> nat \<Rightarrow> nat \<Rightarrow> error + string \<times> nat" where
  "deleteDigits st kc start end' =
     (let unmaskedValue = getUnmaskedValue st
      in bind_err (getCursorPosInUnmaskedValue st start) (\<lambda>cursorPos0.
           if start = end' then
             (if kc = 8 then
                bind_err (prevDigit_loop (activeMaskData st) (int start - 1)) (\<lambda>prevDigitPos.
                  if prevDigitPos \<ge> 0 then
                    bind_err (getCursorPosInUnmaskedValue st (nat prevDigitPos)) (\<lambda>cursorPos.
                      Inr (take cursorPos unmaskedValue @ drop (cursorPos + 1) unmaskedValue, cursorPos))
                  else Inr (unmaskedValue, cursorPos0))
              else if kc = 46 then
                bind_err (nextDigit_loop (activeMaskData st) start) (\<lambda>nextDigitPos.
                  case activeMaskData st of
                    None \<Rightarrow> Inl TypeError
                  | Some maskData \<Rightarrow>
                      if nextDigitPos < length (mask_str maskData) then
                        bind_err (getCursorPosInUnmaskedValue st nextDigitPos) (\<lambda>deleteIndex.
                          Inr (take deleteIndex unmaskedValue @ drop (deleteIndex + 1) unmaskedValue,
                               cursorPos0))
                      else Inr (unmaskedValue, cursorPos0))
              else Inr (unmaskedValue, cursorPos0))
           else
             bind_err (getCursorPosInUnmaskedValue st start) (\<lambda>s.
               bind_err (getCursorPosInUnmaskedValue st end') (\<lambda>e.
                 bind_err (getCursorPosInUnmaskedValue st start) (\<lambda>cursorPos.
                   Inr (take s unmaskedValue @ drop e unmaskedValue, cursorPos))))))"

text \<open>
  \<open>handleKeyDown\<close>: the result is the new instance, whether \<open>preventDefault\<close> was called,
  and the position passed to \<open>setSelectionRange\<close>, if any.
\<close>

definition handleKeyDown :: "phone \<Rightarrow> key_event \<Rightarrow> nat \<Rightarrow> nat \<Rightarrow> error + phone \<times> bool \<times> nat option" where
  "handleKeyDown st event start end' =
     (let kc = keyCode event in
      if (ctrlKey event \<or> metaKey event) \<and> kc \<in> set [65, 67, 86, 88]
         \<or> kc \<in> set [9, 27, 13] \<or> (kc \<ge> 35 \<and> kc \<le> 40)
      then Inr (st, False, None)
      else if kc = 8 \<or> kc = 46 then
        bind_err (deleteDigits st kc start end') (\<lambda>(newUnmaskedValue, cursorPos).
          bind_err (setValue st (Some newUnmaskedValue)) (\<lambda>st1.
            bind_err (setCursorPositionInFormatted st1 cursorPos) (\<lambda>p.
              Inr (st1, True, Some p))))
      else if (shiftKey event \<or> (kc < 48 \<or> kc > 57)) \<and> (kc < 96 \<or> kc > 105)
      then Inr (st, True, None)
      else Inr (st, False, None))"

section \<open>The constructors\<close>

text \<open>
  An \<open>HTMLElement\<close> is a text field, given by the value it holds, or an element of another
  kind (a \<open>div\<close>, say), which has no \<open>value\<close> and no \<open>setCustomValidity\<close>. The first argument
  of either constructor is a selector string, an element, or anything else. \<open>querySelector\<close>
  is \<open>document.querySelector\<close>: it throws a SyntaxError \<open>DOMException\<close> for a string that
  is not a valid selector, and returns \<open>null\<close> (\<open>None\<close>) when no element matches.
\<close>

datatype element = TextInput string | OtherElement

datatype target = Selector string | Element element | NotAnElement

datatype masks_option = MasksAbsent | MasksOne string | MasksList "string list"

record phone_options =
  opt_masks :: masks_option
  opt_messages :: "(string \<Rightarrow> string option) option"

text \<open>
  A \<open>PhoneNumberMask\<close> instance: on a text field, with the state the handlers read and
  write, or on an element of another kind, which the constructor accepts as well (it asks
  for an \<open>HTMLElement\<close> only).
\<close>

datatype phone_instance = OnField phone | OnOther "maskData list"

text \<open>
  The constructor of \<open>PhoneNumberMask\<close> once \<open>this.input\<close> is assigned: \<open>None\<close> is the \<open>null\<close>
  of a selector that matches nothing. In \<open>this.options\<close> the spread of \<open>options\<close> comes last,
  so \<open>options.masks\<close> and \<open>options.messages\<close> replace the defaults when they are given; a
  mask that is not an array becomes a list of one. The initial value is passed to \<open>setValue\<close>
  when it is truthy: never for an element without a \<open>value\<close>.
\<close>

definition PhoneNumberMask_input ::
  "element option \<Rightarrow> string list \<Rightarrow> phone_options \<Rightarrow> error + phone_instance" where
  "PhoneNumberMask_input input languages options =
     (case input of
        None \<Rightarrow> Inl (Error ''Input element not found for PhoneNumberMask.'')
      | Some el \<Rightarrow>
          bind_err
            (parseMasks (case opt_masks options of
                           MasksAbsent \<Rightarrow> [''(##) #####-####'']
                         | MasksOne m \<Rightarrow> [m]
                         | MasksList ms \<Rightarrow> ms))
            (\<lambda>mds.
               (case el of
                  OtherElement \<Rightarrow> Inr (OnOther mds)
                | TextInput initialValue \<Rightarrow>
                    (let st = \<lparr>masksData = mds, activeMaskIndex = - 1,
                               messages = (case opt_messages options of
                                             None \<Rightarrow> DEFAULT_MESSAGES
                                           | Some msgs \<Rightarrow> msgs),
                               userLanguages = languages,
                               input_value = initialValue, customValidity = []\<rparr>
                     in if initialValue \<noteq> []
                        then bind_err (setValue st (Some initialValue)) (\<lambda>st'. Inr (OnField st'))
                        else Inr (OnField st)))))"

definition PhoneNumberMask ::
  "(string \<Rightarrow> error + element option) \<Rightarrow> string list \<Rightarrow> target \<Rightarrow> phone_options
     \<Rightarrow> error + phone_instance" where
  "PhoneNumberMask querySelector languages inputElementOrSelector options =
     (case inputElementOrSelector of
        Selector s \<Rightarrow>
          bind_err (querySelector s) (\<lambda>input. PhoneNumberMask_input input languages options)
      | Element el \<Rightarrow> PhoneNumberMask_input (Some el) languages options
      | NotAnElement \<Rightarrow>
          Inl (Error ''Invalid input element or selector provided to PhoneNumberMask.''))"

text \<open>
  The three methods on an instance. On a text field they are the functions above. On an
  element of another kind every path of \<open>validateInput\<close> reads \<open>this.input.value.replace\<close> of
  an \<open>undefined\<close> value or calls \<open>this.input.setCustomValidity\<close>, which is not a function
  there: a TypeError. \<open>setValue\<close> always ends in \<open>validateInput\<close>, and \<open>handleInput\<close> does so
  unless it returns at once for a deletion.
\<close>

definition instance_validateInput :: "phone_instance \<Rightarrow> error + phone_instance" where
  "instance_validateInput inst =
     (case inst of
        OnField st \<Rightarrow> bind_err (validateInput st) (\<lambda>st'. Inr (OnField st'))
      | OnOther mds \<Rightarrow> Inl TypeError)"

definition instance_setValue :: "phone_instance \<Rightarrow> string option \<Rightarrow> error + phone_instance" where
  "instance_setValue inst v =
     (case inst of
        OnField st \<Rightarrow> bind_err (setValue st v) (\<lambda>st'. Inr (OnField st'))
      | OnOther mds \<Rightarrow> Inl TypeError)"

definition instance_handleInput ::
  "phone_instance \<Rightarrow> string \<Rightarrow> nat \<Rightarrow> error + phone_instance \<times> nat option" where
  "instance_handleInput inst inputType selectionStart =
     (case inst of
        OnField st \<Rightarrow>
          bind_err (handleInput st inputType selectionStart) (\<lambda>(st', c). Inr (OnField st', c))
      | OnOther mds \<Rightarrow>
          if inputType = ''deleteContentBackward'' \<or> inputType = ''deleteContentForward''
          then Inr (OnOther mds, None)
          else Inl TypeError)"





section \<open>Notions used in the statements\<close>

text \<open>The pattern source and the pattern item that \<open>parseMask\<close> produces for one mask character.\<close>

definition piece_of :: "char \<Rightarrow> string" where
  "piece_of c = (if c = CHR ''#'' then optDigitSrc else escapeRegExp [c])"

definition item_of :: "char \<Rightarrow> re_item" where
  "item_of c = (if c = CHR ''#'' then OptDigit else Lit c)"

definition count_placeholders :: "string \<Rightarrow> nat" where
  "count_placeholders m = length (filter (\<lambda>c. c = CHR ''#'') m)"

definition literals_of :: "string \<Rightarrow> string" where
  "literals_of m = filter (\<lambda>c. c \<noteq> CHR ''#'') m"

text \<open>
  The rendering loop as a recursion over the mask and the digits that are left: every
  literal is kept, a placeholder takes a digit while there is one.
\<close>

fun fill :: "string \<Rightarrow> string \<Rightarrow> string" where
  "fill [] ds = []"
| "fill (c # cs) ds =
     (if c = CHR ''#'' then (case ds of [] \<Rightarrow> fill cs [] | d # ds' \<Rightarrow> d # fill cs ds')
      else c # fill cs ds)"

text \<open>
  The rendering as the specification words it: at a placeholder with no digit left the walk
  stops, and nothing after it is appended.
\<close>

fun render_truncating :: "string \<Rightarrow> string \<Rightarrow> string" where
  "render_truncating [] ds = []"
| "render_truncating (c # cs) ds =
     (if c = CHR ''#'' then (case ds of [] \<Rightarrow> [] | d # ds' \<Rightarrow> d # render_truncating cs ds')
      else c # render_truncating cs ds)"

text \<open>The position of the \<open>k\<close>-th placeholder of a mask (from 0), or its length when it has no such placeholder.\<close>

fun nth_placeholder :: "string \<Rightarrow> nat \<Rightarrow> nat" where
  "nth_placeholder [] k = 0"
| "nth_placeholder (c # cs) k =
     (if c = CHR ''#'' then (if k = 0 then 0 else Suc (nth_placeholder cs (k - 1)))
      else Suc (nth_placeholder cs k))"

text \<open>A mask with its placeholders replaced, in order, by the given strings.\<close>

fun subst :: "string \<Rightarrow> string list \<Rightarrow> string" where
  "subst [] ds = []"
| "subst (c # cs) ds =
     (if c = CHR ''#'' then (case ds of [] \<Rightarrow> subst cs [] | d # ds' \<Rightarrow> d @ subst cs ds')
      else c # subst cs ds)"

definition optional_digit :: "string \<Rightarrow> bool" where
  "optional_digit d \<longleftrightarrow> (case d of [] \<Rightarrow> True | c # r \<Rightarrow> is_digit c \<and> r = [])"

text \<open>A list without its element at an index (the list itself when the index is past its end).\<close>

definition delete_at :: "nat \<Rightarrow> 'a list \<Rightarrow> 'a list" where
  "delete_at c u = take c u @ drop (Suc c) u"

text \<open>The number of a placeholder: how many placeholders stand before its position.\<close>

definition placeholder_number :: "string \<Rightarrow> nat \<Rightarrow> nat" where
  "placeholder_number m q = count_placeholders (take q m)"

text \<open>A candidate is eligible when its rendering passes its own pattern; its distance is \<open>diff\<close>.\<close>

definition eligible :: "maskData \<Rightarrow> string \<Rightarrow> bool" where
  "eligible maskData digits \<longleftrightarrow> regex_test (regex maskData) (render maskData digits)"

definition fit :: "maskData \<Rightarrow> string \<Rightarrow> nat" where
  "fit maskData digits = nat \<bar>int (digitCount maskData) - int (length digits)\<bar>"

text \<open>
  An instance as the constructor leaves it and the handlers keep it: the mask data come from
  \<open>parseMask\<close>, and the active index is \<open>-1\<close> or an index of the list.
\<close>

definition constructed :: "phone \<Rightarrow> bool" where
  "constructed st \<longleftrightarrow>
     list_all (\<lambda>md. parseMask (mask_str md) = Inr md) (masksData st)
     \<and> (activeMaskIndex st = - 1
        \<or> (0 \<le> activeMaskIndex st \<and> activeMaskIndex st < int (length (masksData st))))"

text \<open>
  What the selection loop has established after the candidates below \<open>k\<close>: either none of
  them is eligible and the triple is the initial one, or the triple names the first of the
  eligible candidates with the least distance.
\<close>

definition best_upto :: "maskData list \<Rightarrow> string \<Rightarrow> nat \<Rightarrow> int \<times> enat \<times> string \<Rightarrow> bool" where
  "best_upto mds digits k best \<longleftrightarrow>
     (case best of (bi, bd, bf) \<Rightarrow>
        (bi = - 1 \<and> bd = \<infinity> \<and> (\<forall>j<k. \<not> eligible (mds ! j) digits))
        \<or> (0 \<le> bi \<and> nat bi < k \<and> eligible (mds ! nat bi) digits
            \<and> bd = enat (fit (mds ! nat bi) digits) \<and> bf = render (mds ! nat bi) digits
            \<and> (\<forall>j<k. eligible (mds ! j) digits \<longrightarrow>
                   fit (mds ! nat bi) digits < fit (mds ! j) digits
                   \<or> (fit (mds ! nat bi) digits = fit (mds ! j) digits \<and> nat bi \<le> j))))"

section \<open>Example inputs\<close>

definition br_mobile :: string where
  "br_mobile = ''(##) #####-####''"

definition br_landline :: string where
  "br_landline = ''(##) ####-####''"

definition br_prefixed :: string where
  "br_prefixed = ''+55 (##) ##''"

text \<open>
  A document: the empty string is not a valid selector, \<open>#phone\<close> is a text field holding
  eleven digits, \<open>#box\<close> is an element of another kind, and nothing else matches.
\<close>

definition example_document :: "string \<Rightarrow> error + element option" where
  "example_document s =
     (if s = [] then Inl DOMSyntaxError
      else if s = ''#phone'' then Inr (Some (TextInput ''11999999999''))
      else if s = ''#box'' then Inr (Some OtherElement)
      else Inr None)"

text \<open>The mask data of a mask string, and an instance with the given masks, active index and field value.\<close>

definition parsed :: "string \<Rightarrow> maskData" where
  "parsed m = projr (parseMask m)"

definition phone_with :: "string list \<Rightarrow> int \<Rightarrow> string \<Rightarrow> phone" where
  "phone_with masks idx v =
     \<lparr>masksData = map parsed masks, activeMaskIndex = idx, messages = DEFAULT_MESSAGES,
      userLanguages = [''en''], input_value = v, customValidity = []\<rparr>"

text \<open>What a handler leaves behind, as far as the claims go: the active index and the field's text.\<close>

definition outcome :: "error + phone \<Rightarrow> error + int \<times> string" where
  "outcome r = map_sum id (\<lambda>st. (activeMaskIndex st, input_value st)) r"

definition insert_text :: string where
  "insert_text = ''insertText''"

definition input_outcome :: "error + phone \<times> nat option \<Rightarrow> error + int \<times> string" where
  "input_outcome r = outcome (map_sum id fst r)"

definition key_outcome :: "error + phone \<times> bool \<times> nat option \<Rightarrow> error + (int \<times> string) \<times> bool \<times> nat option" where
  "key_outcome r = map_sum id (\<lambda>(st, prevented, cursor). ((activeMaskIndex st, input_value st), prevented, cursor)) r"

definition backspace_key :: key_event where
  "backspace_key = \<lparr>keyCode = 8, ctrlKey = False, metaKey = False, shiftKey = False\<rparr>"

definition delete_key :: key_event where
  "delete_key = \<lparr>keyCode = 46, ctrlKey = False, metaKey = False, shiftKey = False\<rparr>"

definition default_options :: phone_options where
  "default_options = \<lparr>opt_masks = MasksAbsent, opt_messages = None\<rparr>"

section \<open>Parsing and rendering in closed form\<close>

text \<open>
  The loops are unfolded one step at a time, where a proof asks for it, and not by the
  simplifier on its own.
\<close>

declare parseMask_loop.simps [simp del] format_loop.simps [simp del]
  select_loop.simps [simp del] adjust_loop.simps [simp del] unmasked_loop.simps [simp del]
  formatted_loop.simps [simp del] skip_literals.simps [simp del]
  prevDigit_loop.simps [simp del] nextDigit_loop.simps [simp del]

lemma parseMask_loop_regexStr:
  "fst (parseMask_loop m i rs phs ci dc) = rs @ concat (map piece_of (drop i m))"
proof (induction m i rs phs ci dc rule: parseMask_loop.induct)
  case (1 m i rs phs ci dc)
  show ?case
  proof (cases "i < length m")
    case True
    then have d: "drop i m = m ! i # drop (Suc i) m" by (simp add: Cons_nth_drop_Suc)
    show ?thesis using True 1 d
      by (simp add: piece_of_def parseMask_loop.simps [of m i])
  next
    case False
    then show ?thesis by (simp add: parseMask_loop.simps [of m i])
  qed
qed

lemma parseMask_loop_digitCount:
  "snd (snd (snd (parseMask_loop m i rs phs ci dc))) = dc + count_placeholders (drop i m)"
proof (induction m i rs phs ci dc rule: parseMask_loop.induct)
  case (1 m i rs phs ci dc)
  show ?case
  proof (cases "i < length m")
    case True
    then have d: "drop i m = m ! i # drop (Suc i) m" by (simp add: Cons_nth_drop_Suc)
    show ?thesis using True 1 d
      by (simp add: count_placeholders_def parseMask_loop.simps [of m i])
  next
    case False
    then show ?thesis by (simp add: count_placeholders_def parseMask_loop.simps [of m i])
  qed
qed

lemma regexBody_pieces:
  "regexBody (concat (map piece_of cs) @ ''$'') = Some (map item_of cs)"
proof (induction cs)
  case Nil
  show ?case by simp
next
  case (Cons c cs)
  show ?case
  proof (cases "c = CHR ''#''")
    case True
    then show ?thesis using Cons
      by (simp add: piece_of_def item_of_def optDigitSrc_def backslash_def syntaxChars_def)
  next
    case False
    show ?thesis
    proof (cases "c \<in> set syntaxChars")
      case True
      then show ?thesis using Cons False
        by (simp add: piece_of_def item_of_def escapeRegExp_def backslash_def syntaxChars_def)
    next
      case nin: False
      then show ?thesis using Cons False
        by (auto simp add: piece_of_def item_of_def escapeRegExp_def backslash_def syntaxChars_def)
    qed
  qed
qed

lemma parseMask_Inr:
  "\<exists>phs. parseMask m = Inr \<lparr>regex = map item_of m, placeholders = phs, mask_str = m,
      placeholderChar = CHR ''#'', digitCount = count_placeholders m\<rparr>"
proof -
  obtain rs phs ci dc where l: "parseMask_loop m 0 ''^'' [] 0 0 = (rs, phs, ci, dc)"
    by (cases "parseMask_loop m 0 ''^'' [] 0 0") auto
  have rs: "rs = ''^'' @ concat (map piece_of m)"
    using parseMask_loop_regexStr [of m 0 "''^''" "[]" 0 0] l by simp
  have dc: "dc = count_placeholders m"
    using parseMask_loop_digitCount [of m 0 "''^''" "[]" 0 0] l by simp
  have "RegExp (rs @ ''$'') = Some (map item_of m)"
    using regexBody_pieces [of m] by (simp add: rs RegExp_def)
  then show ?thesis using l dc by (simp add: parseMask_def)
qed

lemma parseMask_fields:
  assumes "parseMask m = Inr md"
  shows "regex md = map item_of m" and "mask_str md = m"
    and "placeholderChar md = CHR ''#''" and "digitCount md = count_placeholders m"
  using assms parseMask_Inr [of m] by auto

lemma format_loop_fill:
  "placeholderChar md = CHR ''#'' \<Longrightarrow>
   format_loop md digits i di f = f @ fill (drop i (mask_str md)) (drop di digits)"
proof (induction md digits i di f rule: format_loop.induct)
  case (1 md digits i di f)
  show ?case
  proof (cases "i < length (mask_str md)")
    case False
    then show ?thesis by (simp add: format_loop.simps [of md digits i])
  next
    case True
    then have d: "drop i (mask_str md) = mask_str md ! i # drop (Suc i) (mask_str md)"
      by (simp add: Cons_nth_drop_Suc)
    show ?thesis
    proof (cases "mask_str md ! i = CHR ''#''")
      case False
      then show ?thesis using True d 1 by (simp add: format_loop.simps [of md digits i])
    next
      case ph: True
      show ?thesis
      proof (cases "di < length digits")
        case dl: True
        then have dd: "drop di digits = digits ! di # drop (Suc di) digits"
          by (simp add: Cons_nth_drop_Suc)
        show ?thesis using True ph dl d dd 1
          by (simp add: format_loop.simps [of md digits i])
      next
        case dl: False
        then show ?thesis using True ph d 1
          by (simp add: format_loop.simps [of md digits i])
      qed
    qed
  qed
qed

lemma render_fill:
  "parseMask m = Inr md \<Longrightarrow> render md digits = fill m digits"
  using format_loop_fill [of md digits 0 0 "[]"] parseMask_fields [of m md]
  by (simp add: render_def)

lemma regex_test_fill:
  "list_all is_digit ds \<Longrightarrow> regex_test (map item_of m) (fill m ds)"
proof (induction m arbitrary: ds)
  case Nil
  show ?case by simp
next
  case (Cons c m)
  show ?case
  proof (cases "c = CHR ''#''")
    case False
    then show ?thesis using Cons by (simp add: item_of_def)
  next
    case True
    show ?thesis
    proof (cases ds)
      case Nil
      then show ?thesis using True Cons.IH [of "[]"] by (simp add: item_of_def)
    next
      case (Cons d ds')
      then show ?thesis using True Cons.IH [of ds'] Cons.prems by (simp add: item_of_def)
    qed
  qed
qed

lemma length_fill_min:
  "length (fill m ds) = length (literals_of m) + min (count_placeholders m) (length ds)"
proof (induction m arbitrary: ds)
  case Nil
  show ?case by (simp add: literals_of_def count_placeholders_def)
next
  case (Cons c m)
  show ?case
  proof (cases "c = CHR ''#''")
    case False
    then show ?thesis using Cons [of ds] by (simp add: count_placeholders_def literals_of_def)
  next
    case True
    show ?thesis
    proof (cases ds)
      case Nil
      then show ?thesis using True Cons.IH [of "[]"]
        by (simp add: count_placeholders_def literals_of_def)
    next
      case (Cons d ds')
      then show ?thesis using True Cons.IH [of ds']
        by (simp add: count_placeholders_def literals_of_def)
    qed
  qed
qed

lemma length_split: "length m = length (literals_of m) + count_placeholders m"
  using sum_length_filter_compl [of "\<lambda>c. c = CHR ''#''" m]
  by (simp add: literals_of_def count_placeholders_def)

lemma length_fill:
  "length (fill m ds) = length m - (count_placeholders m - length ds)"
  using length_fill_min [of m ds] length_split [of m] by arith

lemma list_all_stripNonDigits: "list_all is_digit (stripNonDigits v)"
  by (simp add: stripNonDigits_def list_all_iff)

section \<open>The selection loop\<close>

lemma select_step_best_upto:
  assumes "best_upto mds digits k best"
  shows "best_upto mds digits (Suc k) (select_step mds digits k best)"
proof -
  obtain bi bd bf where b: "best = (bi, bd, bf)" by (cases best) auto
  show ?thesis
  proof (cases "eligible (mds ! k) digits")
    case False
    then have "select_step mds digits k best = best"
      by (simp add: select_step_def eligible_def Let_def)
    then show ?thesis using assms False b
      by (auto simp add: best_upto_def less_Suc_eq)
  next
    case True
    show ?thesis
    proof (cases "enat (fit (mds ! k) digits) < bd")
      case lt: True
      then have s: "select_step mds digits k best = (int k, enat (fit (mds ! k) digits), render (mds ! k) digits)"
        using True b by (simp add: select_step_def eligible_def fit_def Let_def)
      show ?thesis using assms True lt b unfolding s
        by (auto simp add: best_upto_def less_Suc_eq)
    next
      case ge: False
      then have s: "select_step mds digits k best = best"
        using True b by (simp add: select_step_def eligible_def fit_def Let_def)
      show ?thesis using assms True ge b unfolding s
        by (auto simp add: best_upto_def less_Suc_eq)
    qed
  qed
qed

lemma select_loop_best_upto:
  "k \<le> length mds \<Longrightarrow> best_upto mds digits k best \<Longrightarrow>
   best_upto mds digits (length mds) (select_loop mds digits k best)"
proof (induction mds digits k best rule: select_loop.induct)
  case (1 mds digits k best)
  show ?case
  proof (cases "k < length mds")
    case True
    then show ?thesis using 1 select_step_best_upto [of mds digits k best]
      by (simp add: select_loop.simps [of mds digits k])
  next
    case False
    then have "select_loop mds digits k best = best"
      by (simp add: select_loop.simps [of mds digits k])
    then show ?thesis using 1 False by simp
  qed
qed

lemma selectBest_best_upto:
  "best_upto mds digits (length mds) (selectBest mds digits)"
  using select_loop_best_upto [of 0 mds digits "(- 1, \<infinity>, [])"]
  by (simp add: selectBest_def best_upto_def)

lemma eligible_parsed:
  "parseMask m = Inr md \<Longrightarrow> list_all is_digit digits \<Longrightarrow> eligible md digits"
  using regex_test_fill [of digits m] render_fill [of m md digits] parseMask_fields(1) [of m md]
  by (simp add: eligible_def)

section \<open>Instances built by the constructor\<close>

lemma parseMask_isr: "parseMask m = Inr (projr (parseMask m))"
  using parseMask_Inr [of m] by auto

lemma parseMasks_Inr:
  "\<exists>mds. parseMasks masks = Inr mds \<and> map mask_str mds = masks
     \<and> list_all (\<lambda>md. parseMask (mask_str md) = Inr md) mds"
proof (induction masks)
  case Nil
  show ?case by simp
next
  case (Cons m masks)
  then obtain mds where mds: "parseMasks masks = Inr mds" "map mask_str mds = masks"
    "list_all (\<lambda>md. parseMask (mask_str md) = Inr md) mds" by auto
  obtain md where md: "parseMask m = Inr md" using parseMask_Inr [of m] by auto
  have "mask_str md = m" using md by (rule parseMask_fields(2))
  then show ?case using mds md by (simp add: bind_err_def)
qed

lemma constructed_eligible:
  assumes "constructed st" "list_all is_digit D" "j < length (masksData st)"
  shows "eligible (masksData st ! j) D"
proof -
  have "parseMask (mask_str (masksData st ! j)) = Inr (masksData st ! j)"
    using assms(1,3) by (simp add: constructed_def list_all_length)
  then show ?thesis using assms(2) by (rule eligible_parsed)
qed

lemma selectBest_constructed:
  assumes "constructed st" "list_all is_digit D" "masksData st \<noteq> []"
    and sel: "selectBest (masksData st) D = (bi, bd, bf)"
  shows "0 \<le> bi \<and> nat bi < length (masksData st)
     \<and> bd = enat (fit (masksData st ! nat bi) D) \<and> bf = render (masksData st ! nat bi) D
     \<and> (\<forall>j<length (masksData st).
           fit (masksData st ! nat bi) D < fit (masksData st ! j) D
           \<or> (fit (masksData st ! nat bi) D = fit (masksData st ! j) D \<and> nat bi \<le> j))"
proof -
  have e: "\<And>j. j < length (masksData st) \<Longrightarrow> eligible (masksData st ! j) D"
    using assms(1,2) by (rule constructed_eligible)
  have pos: "0 < length (masksData st)" using assms(3) by simp
  have b: "best_upto (masksData st) D (length (masksData st)) (bi, bd, bf)"
    using selectBest_best_upto [of "masksData st" D] sel by simp
  have "\<not> (\<forall>j<length (masksData st). \<not> eligible (masksData st ! j) D)"
    using e pos by blast
  then show ?thesis using b e unfolding best_upto_def by auto
qed

lemma validateInput_active:
  assumes "activeMaskData st = Some md" "activeMaskIndex st \<noteq> - 1"
  shows "validateInput st = Inr (st\<lparr>customValidity :=
      (if regex_test (regex md) (input_value st) \<and> length (getUnmaskedValue st) = digitCount md
       then [] else getErrorMessage st)\<rparr>)"
  using assms by (simp add: validateInput_def Let_def)

lemma applyBest_constructed:
  assumes "constructed st" "list_all is_digit D" "masksData st \<noteq> []"
    and sel: "selectBest (masksData st) D = (bi, bd, bf)"
  shows "applyBest st D = Inr (st\<lparr>activeMaskIndex := bi, input_value := bf,
      customValidity :=
        (if length (stripNonDigits bf) = digitCount (masksData st ! nat bi)
         then [] else getErrorMessage (st\<lparr>activeMaskIndex := bi, input_value := bf\<rparr>))\<rparr>)"
proof -
  have s: "0 \<le> bi" "nat bi < length (masksData st)" "bf = render (masksData st ! nat bi) D"
    using selectBest_constructed [OF assms] by auto
  have el: "regex_test (regex (masksData st ! nat bi)) bf"
    using constructed_eligible [OF assms(1,2) s(2)] s(3) by (simp add: eligible_def)
  have ne: "bi \<noteq> - 1" using s(1) by simp
  have lt: "bi < int (length (masksData st))" using s(1,2) by linarith
  have amd: "activeMaskData (st\<lparr>activeMaskIndex := bi\<rparr>) = Some (masksData st ! nat bi)"
    using s(1) lt by (simp add: activeMaskData_def)
  have amd2: "activeMaskData (st\<lparr>activeMaskIndex := bi, input_value := bf\<rparr>) = Some (masksData st ! nat bi)"
    using s(1) lt by (simp add: activeMaskData_def)
  have v: "validateInput (st\<lparr>activeMaskIndex := bi, input_value := bf\<rparr>) =
      Inr (st\<lparr>activeMaskIndex := bi, input_value := bf,
      customValidity :=
        (if length (stripNonDigits bf) = digitCount (masksData st ! nat bi)
         then [] else getErrorMessage (st\<lparr>activeMaskIndex := bi, input_value := bf\<rparr>))\<rparr>)"
    using validateInput_active [OF amd2] ne el by (simp add: getUnmaskedValue_def)
  show ?thesis using sel ne amd el v by (simp add: applyBest_def Let_def)
qed

section \<open>Template positions and the strings a matcher accepts\<close>

lemma parseMask_parsed: "parseMask m = Inr (parsed m)"
  using parseMask_isr [of m] by (simp add: parsed_def)

lemma parsed_fields:
  "regex (parsed m) = map item_of m" "mask_str (parsed m) = m"
  "placeholderChar (parsed m) = CHR ''#''" "digitCount (parsed m) = count_placeholders m"
  using parseMask_fields [OF parseMask_parsed [of m]] by auto

lemma render_parsed: "render (parsed m) ds = fill m ds"
  using parseMask_parsed by (rule render_fill)

lemma constructed_phone_with:
  "idx = - 1 \<or> (0 \<le> idx \<and> idx < int (length masks)) \<Longrightarrow> constructed (phone_with masks idx v)"
  by (auto simp add: constructed_def phone_with_def list_all_iff parsed_fields parseMask_parsed)

lemma fill_Nil: "fill m [] = literals_of m"
  by (induction m) (simp_all add: literals_of_def)

lemma fill_truncating:
  "length ds < count_placeholders m \<Longrightarrow>
   fill m ds = render_truncating m ds @ literals_of (drop (nth_placeholder m (length ds)) m)"
proof (induction m arbitrary: ds)
  case Nil
  then show ?case by (simp add: count_placeholders_def)
next
  case (Cons c m)
  show ?case
  proof (cases "c = CHR ''#''")
    case False
    then show ?thesis using Cons.IH [of ds] Cons.prems by (simp add: count_placeholders_def)
  next
    case True
    show ?thesis
    proof (cases ds)
      case Nil
      then show ?thesis using True by (simp add: fill_Nil literals_of_def)
    next
      case (Cons d ds')
      then show ?thesis using True Cons.IH [of ds'] Cons.prems
        by (simp add: count_placeholders_def)
    qed
  qed
qed

lemma length_render_truncating:
  "length (render_truncating m ds) = nth_placeholder m (length ds)"
proof (induction m arbitrary: ds)
  case Nil
  show ?case by simp
next
  case (Cons c m)
  show ?case using Cons [of ds] Cons [of "tl ds"] by (cases ds) auto
qed

lemma nth_placeholder_hits:
  "k < count_placeholders m \<Longrightarrow>
   nth_placeholder m k < length m \<and> m ! nth_placeholder m k = CHR ''#''"
proof (induction m arbitrary: k)
  case Nil
  then show ?case by (simp add: count_placeholders_def)
next
  case (Cons c m)
  show ?case
  proof (cases "c = CHR ''#''")
    case False
    then show ?thesis using Cons.IH [of k] Cons.prems by (simp add: count_placeholders_def)
  next
    case True
    show ?thesis
    proof (cases k)
      case 0
      then show ?thesis using True by simp
    next
      case (Suc k')
      then show ?thesis using True Cons.IH [of k'] Cons.prems
        by (simp add: count_placeholders_def)
    qed
  qed
qed

lemma regex_test_subst:
  "regex_test (map item_of m) s \<longleftrightarrow>
   (\<exists>ds. length ds = count_placeholders m \<and> list_all optional_digit ds \<and> s = subst m ds)"
proof (induction m arbitrary: s)
  case Nil
  show ?case by (simp add: count_placeholders_def)
next
  case (Cons c m)
  show ?case
  proof (cases "c = CHR ''#''")
    case False
    then show ?thesis using Cons.IH
      by (cases s) (auto simp add: item_of_def count_placeholders_def)
  next
    case True
    show ?thesis
    proof
      assume a: "regex_test (map item_of (c # m)) s"
      then consider (digit) x xs where "s = x # xs" "is_digit x" "regex_test (map item_of m) xs"
        | (empty) "regex_test (map item_of m) s"
        using True by (cases s) (auto simp add: item_of_def)
      then show "\<exists>ds. length ds = count_placeholders (c # m) \<and> list_all optional_digit ds \<and> s = subst (c # m) ds"
      proof cases
        case digit
        then obtain ds where ds: "length ds = count_placeholders m" "list_all optional_digit ds" "xs = subst m ds"
          using Cons.IH [of xs] by auto
        have "length ([x] # ds) = count_placeholders (c # m) \<and> list_all optional_digit ([x] # ds) \<and> s = subst (c # m) ([x] # ds)"
          using ds digit True by (simp add: count_placeholders_def optional_digit_def)
        then show ?thesis by blast
      next
        case empty
        then obtain ds where ds: "length ds = count_placeholders m" "list_all optional_digit ds" "s = subst m ds"
          using Cons.IH [of s] by auto
        have "length ([] # ds) = count_placeholders (c # m) \<and> list_all optional_digit ([] # ds) \<and> s = subst (c # m) ([] # ds)"
          using ds True by (simp add: count_placeholders_def optional_digit_def)
        then show ?thesis by blast
      qed
    next
      assume "\<exists>ds. length ds = count_placeholders (c # m) \<and> list_all optional_digit ds \<and> s = subst (c # m) ds"
      then obtain ds where ds: "length ds = count_placeholders (c # m)" "list_all optional_digit ds" "s = subst (c # m) ds"
        by auto
      then obtain d ds' where dd: "ds = d # ds'" using True by (cases ds) (auto simp add: count_placeholders_def)
      have r: "regex_test (map item_of m) (subst m ds')"
        using Cons.IH [of "subst m ds'"] ds dd True by (auto simp add: count_placeholders_def)
      show "regex_test (map item_of (c # m)) s"
      proof (cases d)
        case Nil
        then show ?thesis using r ds dd True by (simp add: item_of_def)
      next
        case (Cons x xs)
        then show ?thesis using r ds dd True by (simp add: item_of_def optional_digit_def)
      qed
    qed
  qed
qed

lemma regex_test_length:
  "regex_test (map item_of m) s \<Longrightarrow> length (literals_of m) \<le> length s \<and> length s \<le> length m"
proof (induction m arbitrary: s)
  case Nil
  then show ?case by (simp add: literals_of_def)
next
  case (Cons c m)
  show ?case
  proof (cases "c = CHR ''#''")
    case False
    then show ?thesis using Cons.IH Cons.prems
      by (cases s) (auto simp add: item_of_def literals_of_def)
  next
    case True
    then show ?thesis using Cons.IH [of s] Cons.IH [of "tl s"] Cons.prems
      by (cases s) (auto simp add: item_of_def literals_of_def)
  qed
qed

section \<open>The claims about rendering and matching\<close>

text \<open>
  C1, as amended. The claim has the walk stop at the first placeholder that finds no digit.
  The loop has no \<open>break\<close>: for a parsed template and fewer digits than placeholders, the
  rendering begins with the truncated rendering the claim describes, whose length is the
  position of the first unfilled placeholder, and goes on with every literal character
  from that position to the end of the template.
\<close>

theorem render_partial_keeps_literals:
  assumes "parseMask t = Inr T" and "length D < digitCount T"
  shows "render T D = render_truncating t D @ literals_of (drop (nth_placeholder t (length D)) t)
    \<and> length (render_truncating t D) = nth_placeholder t (length D)
    \<and> nth_placeholder t (length D) < length t
    \<and> t ! nth_placeholder t (length D) = CHR ''#''"
proof -
  have k: "length D < count_placeholders t"
    using assms parseMask_fields(4) [of t T] by simp
  have "render T D = fill t D" using assms(1) by (rule render_fill)
  then show ?thesis
    using fill_truncating [OF k] length_render_truncating [of t D] nth_placeholder_hits [OF k]
    by simp
qed

theorem render_partial_keeps_literals_witness:
  "parseMask br_mobile = Inr (parsed br_mobile) \<and> length ''11'' < digitCount (parsed br_mobile)
   \<and> render (parsed br_mobile) ''11'' = ''(11) '' @ ''-''
   \<and> length ''(11) '' = nth_placeholder br_mobile 2
   \<and> nth_placeholder br_mobile 2 < length br_mobile
   \<and> br_mobile ! nth_placeholder br_mobile 2 = CHR ''#''"
  using render_partial_keeps_literals [of br_mobile "parsed br_mobile" "''11''"]
  by (simp add: parseMask_parsed parsed_fields count_placeholders_def literals_of_def br_mobile_def)

theorem render_partial_not_truncated:
  "length ''1'' < digitCount (parsed br_mobile)
   \<and> render (parsed br_mobile) ''1'' = ''(1) -''
   \<and> render_truncating br_mobile ''1'' = ''(1''
   \<and> render (parsed br_mobile) ''1'' \<noteq> render_truncating br_mobile ''1''"
  by (simp add: render_parsed parsed_fields count_placeholders_def br_mobile_def)

text \<open>
  C2, as amended. The claim makes a candidate eligible exactly when the digits fill every
  placeholder. Each placeholder of the pattern is an optional digit, so the rendering of a
  parsed template passes its own pattern for every digit sequence: a full rendering, of the
  template's length, and a partial one, shorter by the number of unfilled placeholders.
\<close>

theorem render_eligible_for_every_length:
  assumes "parseMask t = Inr T" and "list_all is_digit D"
  shows "regex_test (regex T) (render T D)
    \<and> length (render T D) = length t - (digitCount T - length D)"
proof -
  have r: "render T D = fill t D" using assms(1) by (rule render_fill)
  have "regex_test (map item_of t) (fill t D)" using assms(2) by (rule regex_test_fill)
  then show ?thesis
    using r parseMask_fields(1,4) [OF assms(1)] length_fill [of t D] by simp
qed

theorem render_eligible_for_every_length_witness:
  "parseMask br_landline = Inr (parsed br_landline) \<and> list_all is_digit ''119''
   \<and> regex_test (regex (parsed br_landline)) (render (parsed br_landline) ''119'')
   \<and> length (render (parsed br_landline) ''119'') = length br_landline - (digitCount (parsed br_landline) - length ''119'')"
  using render_eligible_for_every_length [of br_landline "parsed br_landline" "''119''"]
  by (simp add: parseMask_parsed is_digit_def)

theorem partial_render_matches:
  "regex_test (regex (parsed br_landline)) (render (parsed br_landline) ''1'')
   \<and> \<not> length ''1'' \<ge> digitCount (parsed br_landline)"
  by (simp add: render_parsed parsed_fields count_placeholders_def item_of_def is_digit_def
      br_landline_def)

text \<open>
  C5, as amended. The claim gives every accepted string the length of the template. A
  placeholder position may be empty, so the pattern of a parsed template accepts exactly
  the strings that keep every literal character and put nothing or one digit in the place
  of each placeholder; an accepted string is at most as long as the template and at least
  as long as the template without its placeholders.
\<close>

theorem matcher_accepts_optional_digits:
  assumes "parseMask t = Inr T"
  shows "(regex_test (regex T) s \<longleftrightarrow>
            (\<exists>ds. length ds = digitCount T \<and> list_all optional_digit ds \<and> s = subst t ds))
    \<and> (regex_test (regex T) s \<longrightarrow> length t - digitCount T \<le> length s \<and> length s \<le> length t)"
proof -
  have f: "regex T = map item_of t" "digitCount T = count_placeholders t"
    using parseMask_fields [OF assms] by auto
  have l: "length t - count_placeholders t = length (literals_of t)"
    using length_split [of t] by simp
  show ?thesis
    using regex_test_subst [of t s] regex_test_length [of t s] f l by simp
qed

theorem matcher_accepts_optional_digits_witness:
  "parseMask ''#-#'' = Inr (parsed ''#-#'')
   \<and> regex_test (regex (parsed ''#-#'')) ''4-''
   \<and> ''4-'' = subst ''#-#'' [''4'', '''']
   \<and> length ''#-#'' - digitCount (parsed ''#-#'') \<le> length ''4-'' \<and> length ''4-'' \<le> length ''#-#''"
proof -
  have "\<exists>ds. length ds = digitCount (parsed ''#-#'') \<and> list_all optional_digit ds \<and> ''4-'' = subst ''#-#'' ds"
    by (rule exI [of _ "[''4'', '''']"])
      (simp add: parsed_fields count_placeholders_def optional_digit_def is_digit_def)
  then show ?thesis
    using matcher_accepts_optional_digits [of "''#-#''" "parsed ''#-#''" "''4-''"]
    by (simp add: parseMask_parsed)
qed

theorem matcher_accepts_shorter_string:
  "regex_test (regex (parsed ''#-#'')) ''-'' \<and> length ''-'' \<noteq> length ''#-#''"
  by (simp add: parsed_fields item_of_def)

section \<open>The handlers never fail on a constructed instance\<close>

lemma adjust_loop_Some: "\<exists>q. adjust_loop (Some md) len p = Inr q"
proof (induction "Some md" len p rule: adjust_loop.induct)
  case (1 len p)
  show ?case
  proof (cases "p < len")
    case False
    then show ?thesis by (simp add: adjust_loop.simps [of _ len p])
  next
    case True
    show ?thesis
    proof (cases "charAt (mask_str md) (int p) \<noteq> Some (placeholderChar md)")
      case False
      then show ?thesis using True by (simp add: adjust_loop.simps [of _ len p])
    next
      case c: True
      then show ?thesis using True 1 by (simp add: adjust_loop.simps [of _ len p])
    qed
  qed
qed

lemma adjustCursorPosition_active:
  "activeMaskData st = Some md \<Longrightarrow> \<exists>c. adjustCursorPosition st sel = Inr c"
  using adjust_loop_Some [of md "length (input_value st)" sel]
  by (auto simp add: adjustCursorPosition_def bind_err_def)

lemma validateInput_none:
  "activeMaskIndex st = - 1 \<Longrightarrow>
   validateInput st = Inr (st\<lparr>customValidity := (if input_value st \<noteq> [] then [] else getErrorMessage st)\<rparr>)"
  by (simp add: validateInput_def)




lemma applyBest_total_Cons:
  assumes "constructed st" "list_all is_digit D" "masksData st \<noteq> []"
  shows "\<exists>st'. applyBest st D = Inr st' \<and> constructed st' \<and> masksData st' = masksData st
    \<and> activeMaskIndex st' = fst (selectBest (masksData st) D)
    \<and> 0 \<le> activeMaskIndex st'
    \<and> input_value st' = render (masksData st ! nat (activeMaskIndex st')) D"
proof -
  obtain bi bd bf where sel: "selectBest (masksData st) D = (bi, bd, bf)"
    by (cases "selectBest (masksData st) D") auto
  have s: "0 \<le> bi" "nat bi < length (masksData st)" "bf = render (masksData st ! nat bi) D"
    using selectBest_constructed [OF assms sel] by auto
  have lt: "bi < int (length (masksData st))" using s(1,2) by linarith
  define st' where "st' = st\<lparr>activeMaskIndex := bi, input_value := bf,
      customValidity :=
        (if length (stripNonDigits bf) = digitCount (masksData st ! nat bi)
         then [] else getErrorMessage (st\<lparr>activeMaskIndex := bi, input_value := bf\<rparr>))\<rparr>"
  have a: "applyBest st D = Inr st'"
    unfolding st'_def using assms sel by (rule applyBest_constructed)
  have f: "masksData st' = masksData st" "activeMaskIndex st' = bi" "input_value st' = bf"
    by (simp_all add: st'_def)
  have c: "constructed st'"
    using assms(1) s(1) lt unfolding constructed_def f by simp
  have b: "fst (selectBest (masksData st) D) = bi" by (simp add: sel)
  have "applyBest st D = Inr st' \<and> constructed st' \<and> masksData st' = masksData st
    \<and> activeMaskIndex st' = fst (selectBest (masksData st) D)
    \<and> 0 \<le> activeMaskIndex st'
    \<and> input_value st' = render (masksData st ! nat (activeMaskIndex st')) D"
    unfolding f b using a c s(1,3) by simp
  then show ?thesis by (rule exI)
qed

lemma constructed_active:
  assumes "constructed st" "activeMaskIndex st \<noteq> - 1"
  shows "activeMaskData st = Some (masksData st ! nat (activeMaskIndex st))"
    and "0 \<le> activeMaskIndex st" and "nat (activeMaskIndex st) < length (masksData st)"
    and "parseMask (mask_str (masksData st ! nat (activeMaskIndex st)))
           = Inr (masksData st ! nat (activeMaskIndex st))"
proof -
  have r: "0 \<le> activeMaskIndex st" "activeMaskIndex st < int (length (masksData st))"
    using assms by (auto simp add: constructed_def)
  then show "activeMaskData st = Some (masksData st ! nat (activeMaskIndex st))"
    by (simp add: activeMaskData_def)
  show "0 \<le> activeMaskIndex st" by (rule r(1))
  show n: "nat (activeMaskIndex st) < length (masksData st)" using r by linarith
  show "parseMask (mask_str (masksData st ! nat (activeMaskIndex st)))
           = Inr (masksData st ! nat (activeMaskIndex st))"
    using assms(1) n by (simp add: constructed_def list_all_length)
qed

lemma adjustCursorPosition_total:
  assumes "constructed st"
  shows "\<exists>c. adjustCursorPosition st sel = Inr c"
proof (cases "activeMaskIndex st = - 1")
  case True
  then show ?thesis by (simp add: adjustCursorPosition_def)
next
  case False
  show ?thesis using constructed_active(1) [OF assms False] by (rule adjustCursorPosition_active)
qed




lemma handleInput_selects:
  assumes "constructed st" "masksData st \<noteq> []"
    and "inputType \<noteq> ''deleteContentBackward''" "inputType \<noteq> ''deleteContentForward''"
  shows "\<exists>st' c. handleInput st inputType sel = Inr (st', c) \<and> constructed st'
    \<and> masksData st' = masksData st
    \<and> activeMaskIndex st' = fst (selectBest (masksData st) (stripNonDigits (input_value st)))
    \<and> 0 \<le> activeMaskIndex st'
    \<and> input_value st' = render (masksData st ! nat (activeMaskIndex st')) (stripNonDigits (input_value st))"
proof -
  obtain st' where a: "applyBest st (stripNonDigits (input_value st)) = Inr st'"
    "constructed st'" "masksData st' = masksData st"
    "activeMaskIndex st' = fst (selectBest (masksData st) (stripNonDigits (input_value st)))"
    "0 \<le> activeMaskIndex st'"
    "input_value st' = render (masksData st ! nat (activeMaskIndex st')) (stripNonDigits (input_value st))"
    using applyBest_total_Cons [OF assms(1) list_all_stripNonDigits assms(2)] by blast
  obtain c where c: "adjustCursorPosition st' sel = Inr c"
    using adjustCursorPosition_total [OF a(2)] by blast
  have "handleInput st inputType sel = Inr (st', c)"
    using assms(3,4) a(1) c by (simp add: handleInput_def bind_err_def)
  then show ?thesis using a by blast
qed

lemma setValue_empty:
  assumes "v = None \<or> v = Some []"
  shows "setValue st v = Inr (st\<lparr>input_value := [], activeMaskIndex := - 1,
     customValidity := getErrorMessage (st\<lparr>input_value := [], activeMaskIndex := - 1\<rparr>)\<rparr>)"
  using assms validateInput_none [of "st\<lparr>input_value := [], activeMaskIndex := - 1\<rparr>"]
  by (auto simp add: setValue_def)


lemma setValue_selects:
  assumes "constructed st" "masksData st \<noteq> []" "v \<noteq> []"
  shows "\<exists>st'. setValue st (Some v) = Inr st' \<and> constructed st' \<and> masksData st' = masksData st
    \<and> activeMaskIndex st' = fst (selectBest (masksData st) (stripNonDigits v))
    \<and> 0 \<le> activeMaskIndex st'
    \<and> input_value st' = render (masksData st ! nat (activeMaskIndex st')) (stripNonDigits v)"
proof -
  have "setValue st (Some v) = applyBest st (stripNonDigits v)"
    using assms(3) by (simp add: setValue_def)
  then show ?thesis
    using applyBest_total_Cons [OF assms(1) list_all_stripNonDigits assms(2), of v] by simp
qed

lemma selectBest_two_11:
  "selectBest (map parsed [br_mobile, br_landline]) ''11999999999'' = (0, 0, ''(11) 99999-9999'')"
  by (simp add: selectBest_def select_loop.simps select_step_def render_parsed parsed_fields
      br_mobile_def br_landline_def item_of_def is_digit_def count_placeholders_def Let_def
      zero_enat_def)

lemma selectBest_two_10:
  "selectBest (map parsed [br_mobile, br_landline]) ''1199999999'' = (1, 0, ''(11) 9999-9999'')"
  by (simp add: selectBest_def select_loop.simps select_step_def render_parsed parsed_fields
      br_mobile_def br_landline_def item_of_def is_digit_def count_placeholders_def Let_def
      zero_enat_def)

lemma handleInput_outcome:
  assumes "constructed st" "masksData st \<noteq> []"
    and "inputType \<noteq> ''deleteContentBackward''" "inputType \<noteq> ''deleteContentForward''"
  shows "input_outcome (handleInput st inputType sel) =
    Inr (fst (selectBest (masksData st) (stripNonDigits (input_value st))),
         render (masksData st ! nat (fst (selectBest (masksData st) (stripNonDigits (input_value st)))))
           (stripNonDigits (input_value st)))"
proof -
  obtain st' c' where h: "handleInput st inputType sel = Inr (st', c')"
    "activeMaskIndex st' = fst (selectBest (masksData st) (stripNonDigits (input_value st)))"
    "input_value st' = render (masksData st ! nat (activeMaskIndex st')) (stripNonDigits (input_value st))"
    using handleInput_selects [OF assms, of sel] by blast
  show ?thesis using h(2,3) unfolding h(1) by (simp add: input_outcome_def outcome_def)
qed

lemma parseMasks_parsed: "parseMasks masks = Inr (map parsed masks)"
  by (induction masks) (simp_all add: parseMask_parsed bind_err_def)

lemma parseMasks_fields:
  assumes "parseMasks masks = Inr mds"
  shows "mds = map parsed masks" and "length mds = length masks"
    and "j < length masks \<Longrightarrow> parseMask (masks ! j) = Inr (mds ! j)"
  using assms by (auto simp add: parseMasks_parsed parseMask_parsed)

section \<open>The claims about selection\<close>

text \<open>
  C3. The selection loop returns, among the candidates whose rendering passes their own
  pattern, the first of those with the least \<open>abs(digitCount - digits.length)\<close>, together
  with its rendering, and \<open>-1\<close> when there is no such candidate; a non-empty list of parsed
  templates always has one for a digit sequence. For the candidates \<open>(##) #####-####\<close> and
  \<open>(##) ####-####\<close>, eleven digits select the first and ten digits the second, as selection
  and as \<open>handleInput\<close> leaves the field.
\<close>

theorem selection_closest_fit_first_occurrence:
  assumes "selectBest mds D = (i, d, f)"
  shows "((\<exists>j<length mds. eligible (mds ! j) D) \<longrightarrow>
            0 \<le> i \<and> nat i < length mds \<and> eligible (mds ! nat i) D \<and> f = render (mds ! nat i) D
            \<and> (\<forall>j<length mds. eligible (mds ! j) D \<longrightarrow>
                  fit (mds ! nat i) D \<le> fit (mds ! j) D
                  \<and> (fit (mds ! j) D = fit (mds ! nat i) D \<longrightarrow> nat i \<le> j)))
    \<and> ((\<forall>j<length mds. \<not> eligible (mds ! j) D) \<longrightarrow> i = - 1)
    \<and> (parseMasks masks = Inr mds \<and> masks \<noteq> [] \<and> list_all is_digit D \<longrightarrow>
          (\<exists>j<length mds. eligible (mds ! j) D))
    \<and> parseMasks [br_mobile, br_landline] = Inr (map parsed [br_mobile, br_landline])
    \<and> selectBest (map parsed [br_mobile, br_landline]) ''11999999999'' = (0, 0, ''(11) 99999-9999'')
    \<and> selectBest (map parsed [br_mobile, br_landline]) ''1199999999'' = (1, 0, ''(11) 9999-9999'')
    \<and> input_outcome (handleInput (phone_with [br_mobile, br_landline] (- 1) ''11999999999'') insert_text 11)
          = Inr (0, ''(11) 99999-9999'')
    \<and> input_outcome (handleInput (phone_with [br_mobile, br_landline] (- 1) ''1199999999'') insert_text 10)
          = Inr (1, ''(11) 9999-9999'')"
proof -
  have b: "best_upto mds D (length mds) (i, d, f)"
    using selectBest_best_upto [of mds D] assms by simp
  have g1: "(\<exists>j<length mds. eligible (mds ! j) D) \<longrightarrow>
            0 \<le> i \<and> nat i < length mds \<and> eligible (mds ! nat i) D \<and> f = render (mds ! nat i) D
            \<and> (\<forall>j<length mds. eligible (mds ! j) D \<longrightarrow>
                  fit (mds ! nat i) D \<le> fit (mds ! j) D
                  \<and> (fit (mds ! j) D = fit (mds ! nat i) D \<longrightarrow> nat i \<le> j))"
    using b unfolding best_upto_def by auto
  have g2: "(\<forall>j<length mds. \<not> eligible (mds ! j) D) \<longrightarrow> i = - 1"
    using b unfolding best_upto_def by auto
  have g3: "parseMasks masks = Inr mds \<and> masks \<noteq> [] \<and> list_all is_digit D \<longrightarrow>
          (\<exists>j<length mds. eligible (mds ! j) D)"
  proof
    assume a: "parseMasks masks = Inr mds \<and> masks \<noteq> [] \<and> list_all is_digit D"
    then have l: "0 < length mds" and p: "parseMask (masks ! 0) = Inr (mds ! 0)"
      using parseMasks_fields(2,3) [of masks mds] by auto
    have "eligible (mds ! 0) D" using p a by (simp add: eligible_parsed)
    then show "\<exists>j<length mds. eligible (mds ! j) D" using l by blast
  qed
  let ?st11 = "phone_with [br_mobile, br_landline] (- 1) ''11999999999''"
  let ?st10 = "phone_with [br_mobile, br_landline] (- 1) ''1199999999''"
  have c: "constructed ?st11" "constructed ?st10" by (rule constructed_phone_with, simp)+
  have m: "masksData ?st11 = map parsed [br_mobile, br_landline]"
    "masksData ?st10 = map parsed [br_mobile, br_landline]" by (simp_all add: phone_with_def)
  have dg: "stripNonDigits (input_value ?st11) = ''11999999999''"
    "stripNonDigits (input_value ?st10) = ''1199999999''"
    by (simp_all add: phone_with_def stripNonDigits_def is_digit_def)
  have g6: "input_outcome (handleInput ?st11 insert_text 11) = Inr (0, ''(11) 99999-9999'')"
    using handleInput_outcome [OF c(1), of insert_text 11] unfolding m dg selectBest_two_11
    by (simp add: insert_text_def render_parsed br_mobile_def)
  have g7: "input_outcome (handleInput ?st10 insert_text 10) = Inr (1, ''(11) 9999-9999'')"
    using handleInput_outcome [OF c(2), of insert_text 10] unfolding m dg selectBest_two_10
    by (simp add: insert_text_def render_parsed br_landline_def)
  show ?thesis
    using g1 g2 g3 g6 g7 selectBest_two_11 selectBest_two_10
      parseMasks_parsed [of "[br_mobile, br_landline]"] by blast
qed

theorem selection_closest_fit_first_occurrence_witness:
  "selectBest (map parsed [br_landline, br_mobile, br_landline]) ''1199999999''
      = (0, 0, ''(11) 9999-9999'')
   \<and> eligible (parsed br_mobile) ''1199999999''
   \<and> eligible (map parsed [br_landline, br_mobile, br_landline] ! 2) ''1199999999''
   \<and> fit (map parsed [br_landline, br_mobile, br_landline] ! nat 0) ''1199999999''
        \<le> fit (map parsed [br_landline, br_mobile, br_landline] ! 2) ''1199999999''
   \<and> nat 0 \<le> (2::nat)"
proof -
  let ?mds = "map parsed [br_landline, br_mobile, br_landline]"
  have s: "selectBest ?mds ''1199999999'' = (0, 0, ''(11) 9999-9999'')"
    by (simp add: selectBest_def select_loop.simps select_step_def render_parsed parsed_fields
        br_mobile_def br_landline_def item_of_def is_digit_def count_placeholders_def Let_def
        zero_enat_def)
  have e: "eligible (parsed br_mobile) ''1199999999''" "eligible (?mds ! 2) ''1199999999''"
    by (simp_all add: eligible_def render_parsed parsed_fields br_mobile_def br_landline_def
        item_of_def is_digit_def)
  have "\<exists>j<length ?mds. eligible (?mds ! j) ''1199999999''"
    using e(2) by (intro exI [of _ 2]) simp
  then have "\<forall>j<length ?mds. eligible (?mds ! j) ''1199999999'' \<longrightarrow>
      fit (?mds ! nat 0) ''1199999999'' \<le> fit (?mds ! j) ''1199999999''
      \<and> (fit (?mds ! j) ''1199999999'' = fit (?mds ! nat 0) ''1199999999'' \<longrightarrow> nat 0 \<le> j)"
    using selection_closest_fit_first_occurrence [OF s] by blast
  then have "fit (?mds ! nat 0) ''1199999999'' \<le> fit (?mds ! 2) ''1199999999'' \<and> nat 0 \<le> (2::nat)"
    using e(2) by simp
  then show ?thesis using s e by blast
qed

text \<open>
  C10. The rendering of a parsed template passes the template's own pattern for every digit
  sequence, of any length. So on an instance with at least one mask, the selection pass of
  \<open>handleInput\<close> and of \<open>setValue\<close> (for a value that is not empty) always returns an index
  of the list, never \<open>-1\<close>, and the handler stores it as the active index.
\<close>

theorem render_matches_and_selection_finds:
  assumes "parseMask t = Inr T" and "list_all is_digit D"
    and "constructed st" and "masksData st \<noteq> []"
    and "inputType \<noteq> ''deleteContentBackward''" and "inputType \<noteq> ''deleteContentForward''"
    and "v \<noteq> []"
  shows "regex_test (regex T) (render T D)
    \<and> fst (selectBest (masksData st) D) \<noteq> - 1
    \<and> 0 \<le> fst (selectBest (masksData st) D)
    \<and> nat (fst (selectBest (masksData st) D)) < length (masksData st)
    \<and> (\<exists>st' c. handleInput st inputType sel = Inr (st', c)
          \<and> activeMaskIndex st' = fst (selectBest (masksData st) (stripNonDigits (input_value st)))
          \<and> activeMaskIndex st' \<noteq> - 1)
    \<and> (\<exists>st'. setValue st (Some v) = Inr st'
          \<and> activeMaskIndex st' = fst (selectBest (masksData st) (stripNonDigits v))
          \<and> activeMaskIndex st' \<noteq> - 1)"
proof -
  have g1: "regex_test (regex T) (render T D)"
    using eligible_parsed [OF assms(1,2)] by (simp add: eligible_def)
  obtain bi bd bf where sel: "selectBest (masksData st) D = (bi, bd, bf)"
    by (cases "selectBest (masksData st) D") auto
  have s: "0 \<le> bi" "nat bi < length (masksData st)"
    using selectBest_constructed [OF assms(3) assms(2) assms(4) sel] by auto
  have g2: "fst (selectBest (masksData st) D) \<noteq> - 1 \<and> 0 \<le> fst (selectBest (masksData st) D)
    \<and> nat (fst (selectBest (masksData st) D)) < length (masksData st)"
    using s by (simp add: sel)
  obtain st1 c1 where h: "handleInput st inputType sel = Inr (st1, c1)"
    "activeMaskIndex st1 = fst (selectBest (masksData st) (stripNonDigits (input_value st)))"
    "0 \<le> activeMaskIndex st1"
    using handleInput_selects [OF assms(3,4,5,6), of sel] by blast
  have g3: "\<exists>st' c. handleInput st inputType sel = Inr (st', c)
          \<and> activeMaskIndex st' = fst (selectBest (masksData st) (stripNonDigits (input_value st)))
          \<and> activeMaskIndex st' \<noteq> - 1"
    using h by (intro exI [of _ st1] exI [of _ c1]) simp
  obtain st2 where v: "setValue st (Some v) = Inr st2"
    "activeMaskIndex st2 = fst (selectBest (masksData st) (stripNonDigits v))"
    "0 \<le> activeMaskIndex st2"
    using setValue_selects [OF assms(3,4,7)] by blast
  have g4: "\<exists>st'. setValue st (Some v) = Inr st'
          \<and> activeMaskIndex st' = fst (selectBest (masksData st) (stripNonDigits v))
          \<and> activeMaskIndex st' \<noteq> - 1"
    using v by (intro exI [of _ st2]) simp
  show ?thesis using g1 g2 g3 g4 by blast
qed

theorem render_matches_and_selection_finds_witness:
  "parseMask br_mobile = Inr (parsed br_mobile) \<and> list_all is_digit ''''
   \<and> constructed (phone_with [br_mobile] (- 1) ''abc'') \<and> masksData (phone_with [br_mobile] (- 1) ''abc'') \<noteq> []
   \<and> regex_test (regex (parsed br_mobile)) (render (parsed br_mobile) '''')
   \<and> fst (selectBest (masksData (phone_with [br_mobile] (- 1) ''abc'')) '''') \<noteq> - 1
   \<and> (\<exists>st' c. handleInput (phone_with [br_mobile] (- 1) ''abc'') insert_text 3 = Inr (st', c)
          \<and> activeMaskIndex st' \<noteq> - 1)
   \<and> (\<exists>st'. setValue (phone_with [br_mobile] (- 1) ''abc'') (Some ''abc'') = Inr st'
          \<and> activeMaskIndex st' \<noteq> - 1)"
proof -
  have c: "constructed (phone_with [br_mobile] (- 1) ''abc'')"
    by (rule constructed_phone_with) simp
  have m: "masksData (phone_with [br_mobile] (- 1) ''abc'') \<noteq> []" by (simp add: phone_with_def)
  have d: "list_all is_digit ''''" by simp
  have i: "insert_text \<noteq> ''deleteContentBackward''" "insert_text \<noteq> ''deleteContentForward''"
    by (simp_all add: insert_text_def)
  have v: "''abc'' \<noteq> []" by simp
  have p: "parseMask br_mobile = Inr (parsed br_mobile)" by (rule parseMask_parsed)
  show ?thesis
    using render_matches_and_selection_finds [OF p d c m i v, where sel = 3] p c m d
    by blast
qed

section \<open>An empty digit sequence\<close>

lemma setValue_empty_outcome:
  "outcome (setValue (phone_with masks idx v) None) = Inr (- 1, [])
   \<and> outcome (setValue (phone_with masks idx v) (Some [])) = Inr (- 1, [])"
  by (simp add: setValue_empty outcome_def)

text \<open>
  C6. \<open>setValue\<close> treats an empty value apart: the field is cleared and there is no active
  mask. \<open>handleInput\<close> has no such case: with no digit in the field it runs the selection
  all the same, which makes the closest mask active and writes its literal characters to
  the field.
\<close>

theorem handleInput_empty_digits:
  "stripNonDigits (input_value (phone_with [br_mobile] (- 1) [])) = []
   \<and> input_outcome (handleInput (phone_with [br_mobile] (- 1) []) ''deleteByCut'' 0)
       = Inr (0, ''() -'')"
proof -
  let ?st = "phone_with [br_mobile] (- 1) []"
  have c: "constructed ?st" by (rule constructed_phone_with) simp
  have m: "masksData ?st = [parsed br_mobile]" by (simp add: phone_with_def)
  have d: "stripNonDigits (input_value ?st) = []"
    by (simp add: phone_with_def stripNonDigits_def)
  have s: "fst (selectBest [parsed br_mobile] []) = 0"
    by (simp add: selectBest_def select_loop.simps select_step_def render_parsed parsed_fields
        br_mobile_def item_of_def Let_def)
  show ?thesis
    using handleInput_outcome [OF c, of "''deleteByCut''" 0] d unfolding m d s
    by (simp add: render_parsed br_mobile_def)
qed

section \<open>Cursor positions in closed form\<close>

lemma charAt_placeholder:
  "charAt m (int i) = Some CHR ''#'' \<longleftrightarrow> i < length m \<and> m ! i = CHR ''#''"
  by (simp add: charAt_def)

lemma unmasked_loop_count:
  "placeholderChar md = CHR ''#'' \<Longrightarrow>
   unmasked_loop (Some md) pos i cnt
     = Inr (cnt + count_placeholders (drop i (take pos (mask_str md))))"
proof (induction "Some md" pos i cnt rule: unmasked_loop.induct)
  case (1 pos i cnt)
  show ?case
  proof (cases "i < pos")
    case False
    then show ?thesis
      by (simp add: unmasked_loop.simps [of _ pos i] count_placeholders_def)
  next
    case True
    show ?thesis
    proof (cases "i < length (mask_str md)")
      case False
      then show ?thesis using True 1
        by (simp add: unmasked_loop.simps [of _ pos i] count_placeholders_def charAt_def)
    next
      case l: True
      then have d: "drop i (take pos (mask_str md)) = mask_str md ! i # drop (Suc i) (take pos (mask_str md))"
        using True by (simp add: Cons_nth_drop_Suc [symmetric])
      show ?thesis using True l 1 d
        by (simp add: unmasked_loop.simps [of _ pos i] count_placeholders_def charAt_def)
    qed
  qed
qed

lemma formatted_loop_nth:
  "placeholderChar md = CHR ''#'' \<Longrightarrow> cnt \<le> k \<Longrightarrow> fpos = i \<Longrightarrow>
   formatted_loop md k i fpos cnt = i + nth_placeholder (drop i (mask_str md)) (k - cnt)"
proof (induction md k i fpos cnt rule: formatted_loop.induct)
  case (1 md k i fpos cnt)
  show ?case
  proof (cases "i < length (mask_str md)")
    case False
    then show ?thesis using 1(5) by (simp add: formatted_loop.simps [of md k i])
  next
    case True
    then have d: "drop i (mask_str md) = mask_str md ! i # drop (Suc i) (mask_str md)"
      by (simp add: Cons_nth_drop_Suc)
    show ?thesis
    proof (cases "mask_str md ! i = CHR ''#''")
      case False
      then show ?thesis using True d 1 by (simp add: formatted_loop.simps [of md k i])
    next
      case ph: True
      show ?thesis
      proof (cases "cnt = k")
        case e: True
        then show ?thesis using True ph d 1(3) by (simp add: formatted_loop.simps [of md k i])
      next
        case ne: False
        then have "cnt + 1 \<le> k" using 1(4) by simp
        then show ?thesis using True ph d ne 1 by (simp add: formatted_loop.simps [of md k i])
      qed
    qed
  qed
qed

lemma nth_placeholder_beyond:
  "count_placeholders m \<le> k \<Longrightarrow> nth_placeholder m k = length m"
proof (induction m arbitrary: k)
  case Nil
  show ?case by simp
next
  case (Cons c m)
  show ?case
  proof (cases "c = CHR ''#''")
    case False
    then show ?thesis using Cons.IH [of k] Cons.prems by (simp add: count_placeholders_def)
  next
    case True
    then show ?thesis using Cons.IH [of "k - 1"] Cons.prems
      by (cases k) (simp_all add: count_placeholders_def)
  qed
qed

lemma count_before_nth_placeholder:
  "count_placeholders (take (nth_placeholder m k) m) = min k (count_placeholders m)"
proof (induction m arbitrary: k)
  case Nil
  show ?case by (simp add: count_placeholders_def)
next
  case (Cons c m)
  show ?case
  proof (cases "c = CHR ''#''")
    case False
    then show ?thesis using Cons.IH [of k] by (simp add: count_placeholders_def)
  next
    case True
    show ?thesis
    proof (cases k)
      case 0
      then show ?thesis using True by (simp add: count_placeholders_def)
    next
      case (Suc k')
      then show ?thesis using True Cons.IH [of k'] by (simp add: count_placeholders_def)
    qed
  qed
qed

lemma skip_literals_stays:
  "placeholderChar md = CHR ''#'' \<Longrightarrow>
   skip_literals md (nth_placeholder (mask_str md) k) = nth_placeholder (mask_str md) k"
proof (cases "k < count_placeholders (mask_str md)")
  case True
  assume "placeholderChar md = CHR ''#''"
  then show ?thesis using nth_placeholder_hits [OF True]
    by (simp add: skip_literals.simps [of md "nth_placeholder (mask_str md) k"])
next
  case False
  then have "nth_placeholder (mask_str md) k = length (mask_str md)"
    by (simp add: nth_placeholder_beyond)
  then show ?thesis by (simp add: skip_literals.simps [of md "length (mask_str md)"])
qed

lemma getCursorPos_active:
  assumes "constructed st" "activeMaskData st = Some T"
  shows "getCursorPosInUnmaskedValue st pos = Inr (count_placeholders (take pos (mask_str T)))"
    and "activeMaskIndex st \<noteq> - 1" and "parseMask (mask_str T) = Inr T"
    and "placeholderChar T = CHR ''#''" and "digitCount T = count_placeholders (mask_str T)"
proof -
  show ne: "activeMaskIndex st \<noteq> - 1"
    using assms(2) by (auto simp add: activeMaskData_def split: if_splits)
  have "T = masksData st ! nat (activeMaskIndex st)"
    using constructed_active(1) [OF assms(1) ne] assms(2) by simp
  then show p: "parseMask (mask_str T) = Inr T"
    using constructed_active(4) [OF assms(1) ne] by simp
  show ph: "placeholderChar T = CHR ''#''" using p by (rule parseMask_fields(3))
  show "digitCount T = count_placeholders (mask_str T)" using p by (rule parseMask_fields(4))
  show "getCursorPosInUnmaskedValue st pos = Inr (count_placeholders (take pos (mask_str T)))"
    using ne assms(2) unmasked_loop_count [OF ph, of pos 0 0]
    by (simp add: getCursorPosInUnmaskedValue_def)
qed

lemma setCursorPosition_active:
  assumes "constructed st" "activeMaskData st = Some T"
  shows "setCursorPositionInFormatted st k = Inr (nth_placeholder (mask_str T) k)"
proof -
  have ph: "placeholderChar T = CHR ''#''" using assms by (rule getCursorPos_active(4))
  have ne: "activeMaskIndex st \<noteq> - 1" using assms by (rule getCursorPos_active(2))
  have "formatted_loop T k 0 0 0 = nth_placeholder (mask_str T) k"
    using formatted_loop_nth [OF ph, of 0 k 0 0] by simp
  then show ?thesis using ne assms(2) skip_literals_stays [OF ph, of k]
    by (simp add: setCursorPositionInFormatted_def)
qed

section \<open>The claim about the two cursor maps\<close>

text \<open>
  C4. With an active template \<open>T\<close>, the position that \<open>setCursorPositionInFormatted\<close> computes
  for the unmasked offset \<open>k\<close> is the position of the \<open>k\<close>-th placeholder (the length of the
  template when there is none), and \<open>getCursorPosInUnmaskedValue\<close> maps it back to
  \<open>min(k, T.digitCount)\<close>.
\<close>

theorem cursor_round_trip:
  assumes "constructed st" and "activeMaskData st = Some T"
  shows "\<exists>p. setCursorPositionInFormatted st k = Inr p
    \<and> p = nth_placeholder (mask_str T) k
    \<and> getCursorPosInUnmaskedValue st p = Inr (min k (digitCount T))"
proof -
  have "getCursorPosInUnmaskedValue st (nth_placeholder (mask_str T) k)
      = Inr (min k (digitCount T))"
    using getCursorPos_active(1,5) [OF assms] count_before_nth_placeholder [of "mask_str T" k]
    by simp
  then show ?thesis using setCursorPosition_active [OF assms, of k] by simp
qed

theorem cursor_round_trip_witness:
  "constructed (phone_with [br_mobile] 0 ''(11) 99999-9999'')
   \<and> activeMaskData (phone_with [br_mobile] 0 ''(11) 99999-9999'') = Some (parsed br_mobile)
   \<and> setCursorPositionInFormatted (phone_with [br_mobile] 0 ''(11) 99999-9999'') 2 = Inr 5
   \<and> getCursorPosInUnmaskedValue (phone_with [br_mobile] 0 ''(11) 99999-9999'') 5 = Inr 2
   \<and> setCursorPositionInFormatted (phone_with [br_mobile] 0 ''(11) 99999-9999'') 12 = Inr 15
   \<and> getCursorPosInUnmaskedValue (phone_with [br_mobile] 0 ''(11) 99999-9999'') 15 = Inr 11"
proof -
  let ?st = "phone_with [br_mobile] 0 ''(11) 99999-9999''"
  have c: "constructed ?st" by (rule constructed_phone_with) simp
  have a: "activeMaskData ?st = Some (parsed br_mobile)"
    by (simp add: activeMaskData_def phone_with_def)
  have n: "nth_placeholder (mask_str (parsed br_mobile)) 2 = 5"
    "nth_placeholder (mask_str (parsed br_mobile)) 12 = 15"
    "digitCount (parsed br_mobile) = 11"
    by (simp_all add: parsed_fields br_mobile_def count_placeholders_def)
  show ?thesis
    using cursor_round_trip [OF c a, of 2] cursor_round_trip [OF c a, of 12] c a
    unfolding n by simp
qed

section \<open>Backspace in closed form\<close>

lemma prevDigit_loop_found:
  "placeholderChar md = CHR ''#'' \<Longrightarrow> int q \<le> p \<Longrightarrow> q < length (mask_str md) \<Longrightarrow>
   mask_str md ! q = CHR ''#'' \<Longrightarrow>
   (\<forall>r. q < r \<and> int r \<le> p \<and> r < length (mask_str md) \<longrightarrow> mask_str md ! r \<noteq> CHR ''#'') \<Longrightarrow>
   prevDigit_loop (Some md) p = Inr (int q)"
proof (induction "Some md" p rule: prevDigit_loop.induct)
  case (1 p)
  have p0: "0 \<le> p" using 1(3) by simp
  show ?case
  proof (cases "p = int q")
    case True
    then show ?thesis using 1(2,4,5)
      by (simp add: prevDigit_loop.simps [of _ "int q"] charAt_def)
  next
    case False
    then have lt: "int q \<le> p - 1" using 1(3) by simp
    have "q < nat p" using False 1(3) by linarith
    then have n: "charAt (mask_str md) p \<noteq> Some (placeholderChar md)"
      using 1(2,6) p0 by (auto simp add: charAt_def)
    have "\<forall>r. q < r \<and> int r \<le> p - 1 \<and> r < length (mask_str md) \<longrightarrow> mask_str md ! r \<noteq> CHR ''#''"
      using 1(6) by auto
    then have "prevDigit_loop (Some md) (p - 1) = Inr (int q)"
      using 1(1) [OF p0 refl n 1(2) lt 1(4,5)] by simp
    then show ?thesis using p0 n by (simp add: prevDigit_loop.simps [of _ p])
  qed
qed

lemma prevDigit_loop_none:
  "placeholderChar md = CHR ''#'' \<Longrightarrow> - 1 \<le> p \<Longrightarrow>
   (\<forall>r. int r \<le> p \<and> r < length (mask_str md) \<longrightarrow> mask_str md ! r \<noteq> CHR ''#'') \<Longrightarrow>
   prevDigit_loop (Some md) p = Inr (- 1)"
proof (induction "Some md" p rule: prevDigit_loop.induct)
  case (1 p)
  show ?case
  proof (cases "0 \<le> p")
    case False
    then have "p = - 1" using 1(3) by simp
    then show ?thesis by (simp add: prevDigit_loop.simps [of _ "- 1"])
  next
    case True
    have n: "charAt (mask_str md) p \<noteq> Some (placeholderChar md)"
      using 1(2,4) True by (auto simp add: charAt_def)
    have "\<forall>r. int r \<le> p - 1 \<and> r < length (mask_str md) \<longrightarrow> mask_str md ! r \<noteq> CHR ''#''"
      using 1(4) by auto
    then have "prevDigit_loop (Some md) (p - 1) = Inr (- 1)"
      using 1(1) [OF True refl n 1(2)] True by simp
    then show ?thesis using True n by (simp add: prevDigit_loop.simps [of _ p])
  qed
qed

lemma count_placeholders_none:
  "(\<forall>r. r < n \<and> r < length m \<longrightarrow> m ! r \<noteq> CHR ''#'') \<Longrightarrow> count_placeholders (take n m) = 0"
  by (auto simp add: count_placeholders_def filter_empty_conv in_set_conv_nth)

lemma backspace_found:
  assumes "constructed st" and "activeMaskData st = Some T"
    and "q < start" and "q < length (mask_str T)" and "mask_str T ! q = CHR ''#''"
    and "\<forall>r. q < r \<and> r < start \<and> r < length (mask_str T) \<longrightarrow> mask_str T ! r \<noteq> CHR ''#''"
  shows "deleteDigits st 8 start start =
    Inr (take (count_placeholders (take q (mask_str T))) (getUnmaskedValue st)
           @ drop (Suc (count_placeholders (take q (mask_str T)))) (getUnmaskedValue st),
         count_placeholders (take q (mask_str T)))"
proof -
  have ph: "placeholderChar T = CHR ''#''" using assms(1,2) by (rule getCursorPos_active(4))
  have le: "int q \<le> int start - 1" using assms(3) by simp
  have "\<forall>r. q < r \<and> int r \<le> int start - 1 \<and> r < length (mask_str T) \<longrightarrow> mask_str T ! r \<noteq> CHR ''#''"
    using assms(6) by auto
  then have l: "prevDigit_loop (Some T) (int start - 1) = Inr (int q)"
    using prevDigit_loop_found [OF ph le assms(4,5)] by simp
  show ?thesis
    using l assms(2) getCursorPos_active(1) [OF assms(1,2)]
    by (simp add: deleteDigits_def bind_err_def Let_def)
qed

lemma backspace_nothing:
  assumes "constructed st" and "activeMaskData st = Some T"
    and "\<forall>r. r < start \<and> r < length (mask_str T) \<longrightarrow> mask_str T ! r \<noteq> CHR ''#''"
  shows "deleteDigits st 8 start start = Inr (getUnmaskedValue st, 0)"
proof -
  have ph: "placeholderChar T = CHR ''#''" using assms(1,2) by (rule getCursorPos_active(4))
  have "\<forall>r. int r \<le> int start - 1 \<and> r < length (mask_str T) \<longrightarrow> mask_str T ! r \<noteq> CHR ''#''"
    using assms(3) by auto
  then have l: "prevDigit_loop (Some T) (int start - 1) = Inr (- 1)"
    using prevDigit_loop_none [OF ph, of "int start - 1"] by simp
  have z: "count_placeholders (take start (mask_str T)) = 0"
    using assms(3) by (rule count_placeholders_none)
  show ?thesis
    using l z assms(2) getCursorPos_active(1) [OF assms(1,2)]
    by (simp add: deleteDigits_def bind_err_def Let_def)
qed

lemma handleKeyDown_delete:
  assumes "keyCode event = 8 \<or> keyCode event = 46"
  shows "handleKeyDown st event start end' =
    bind_err (deleteDigits st (keyCode event) start end') (\<lambda>(newUnmaskedValue, cursorPos).
      bind_err (setValue st (Some newUnmaskedValue)) (\<lambda>st1.
        bind_err (setCursorPositionInFormatted st1 cursorPos) (\<lambda>p. Inr (st1, True, Some p))))"
  using assms by (auto simp add: handleKeyDown_def Let_def)

lemma backspace_after_area_code:
  "deleteDigits (phone_with [br_mobile] 0 ''(11) 99999-9999'') 8 5 5 = Inr (''1999999999'', 1)
   \<and> key_outcome (handleKeyDown (phone_with [br_mobile] 0 ''(11) 99999-9999'') backspace_key 5 5)
       = Inr ((0, ''(19) 99999-999''), True, Some 2)"
proof -
  let ?st = "phone_with [br_mobile] 0 ''(11) 99999-9999''"
  have c: "constructed ?st" by (rule constructed_phone_with) simp
  have a: "activeMaskData ?st = Some (parsed br_mobile)"
    by (simp add: activeMaskData_def phone_with_def)
  have m: "masksData ?st = [parsed br_mobile]" by (simp add: phone_with_def)
  have u: "getUnmaskedValue ?st = ''11999999999''"
    by (simp add: getUnmaskedValue_def phone_with_def stripNonDigits_def is_digit_def)
  have n: "\<forall>r. 2 < r \<and> r < 5 \<and> r < length (mask_str (parsed br_mobile))
      \<longrightarrow> mask_str (parsed br_mobile) ! r \<noteq> CHR ''#''"
  proof (intro allI impI)
    fix r :: nat
    assume "2 < r \<and> r < 5 \<and> r < length (mask_str (parsed br_mobile))"
    then have "r = 3 \<or> r = 4" by arith
    then show "mask_str (parsed br_mobile) ! r \<noteq> CHR ''#''"
      by (auto simp add: parsed_fields br_mobile_def)
  qed
  have d: "deleteDigits ?st 8 5 5 = Inr (''1999999999'', 1)"
    using backspace_found [OF c a _ _ _ n] unfolding u
    by (simp add: parsed_fields br_mobile_def count_placeholders_def)
  have ne: "''1999999999'' \<noteq> []" by simp
  have nem: "masksData ?st \<noteq> []" by (simp add: m)
  have sd: "stripNonDigits ''1999999999'' = ''1999999999''"
    by (simp add: stripNonDigits_def is_digit_def)
  have sb: "selectBest [parsed br_mobile] ''1999999999'' = (0, 1, ''(19) 99999-999'')"
    by (simp add: selectBest_def select_loop.simps select_step_def render_parsed parsed_fields
        br_mobile_def item_of_def is_digit_def count_placeholders_def Let_def one_enat_def)
  obtain st1 where s1: "setValue ?st (Some ''1999999999'') = Inr st1" "constructed st1"
    "masksData st1 = masksData ?st"
    "activeMaskIndex st1 = fst (selectBest (masksData ?st) (stripNonDigits ''1999999999''))"
    "input_value st1 = render (masksData ?st ! nat (activeMaskIndex st1)) (stripNonDigits ''1999999999'')"
    using setValue_selects [OF c nem ne] by blast
  have i1: "activeMaskIndex st1 = 0" using s1(4) unfolding m sd sb by simp
  have v1: "input_value st1 = ''(19) 99999-999''"
    using s1(5) unfolding m sd i1 by (simp add: render_parsed br_mobile_def)
  have a1: "activeMaskData st1 = Some (parsed br_mobile)"
    using i1 s1(3) m by (simp add: activeMaskData_def)
  have p1: "setCursorPositionInFormatted st1 1 = Inr 2"
    using setCursorPosition_active [OF s1(2) a1, of 1]
    by (simp add: parsed_fields br_mobile_def)
  have "handleKeyDown ?st backspace_key 5 5 = Inr (st1, True, Some 2)"
    using d s1(1) p1
    by (simp add: handleKeyDown_delete backspace_key_def bind_err_def)
  then show ?thesis using d i1 v1 by (simp add: key_outcome_def)
qed

section \<open>Validation\<close>

lemma lookupMessage_nonempty: "lookupMessage msgs langs = Some msg \<Longrightarrow> msg \<noteq> []"
proof (induction langs)
  case Nil
  then show ?case by simp
next
  case (Cons language rest)
  then show ?case
    by (auto simp add: truthy_def Let_def split: if_splits option.splits)
qed

lemma getErrorMessage_nonempty: "getErrorMessage st \<noteq> []"
  using lookupMessage_nonempty [of "messages st" "userLanguages st"]
  by (auto simp add: getErrorMessage_def DEFAULT_MESSAGES_en_def split: option.splits)

lemma getErrorMessage_phone_with: "getErrorMessage (phone_with masks idx v) = DEFAULT_MESSAGES_en"
  by (simp add: getErrorMessage_def phone_with_def DEFAULT_MESSAGES_def truthy_def
      DEFAULT_MESSAGES_en_def)

text \<open>
  C8, as amended. With an active template, \<open>validateInput\<close> clears the validity message exactly
  when the field passes the template's pattern and holds as many digits as the template has
  placeholders, and sets the (never empty) localized message otherwise. The template
  \<open>(##) #####-####\<close> has eleven placeholders, not nine: the display \<open>(11) 9999-9999\<close> passes
  the pattern, holds ten digits, and fails validation for its digit count.
\<close>

theorem validateInput_pattern_and_digit_count:
  assumes "constructed st" and "activeMaskData st = Some T"
  shows "(\<exists>st'. validateInput st = Inr st'
            \<and> (customValidity st' = [] \<longleftrightarrow>
                 regex_test (regex T) (input_value st) \<and> length (getUnmaskedValue st) = digitCount T)
            \<and> (customValidity st' \<noteq> [] \<longrightarrow> customValidity st' = getErrorMessage st))
    \<and> getErrorMessage st \<noteq> []
    \<and> digitCount (parsed br_mobile) = 11
    \<and> regex_test (regex (parsed br_mobile)) ''(11) 9999-9999''
    \<and> length (stripNonDigits ''(11) 9999-9999'') = 10
    \<and> map_sum id customValidity (validateInput (phone_with [br_mobile] 0 ''(11) 9999-9999''))
        = Inr DEFAULT_MESSAGES_en"
proof -
  have ne: "activeMaskIndex st \<noteq> - 1" using assms by (rule getCursorPos_active(2))
  have v: "validateInput st = Inr (st\<lparr>customValidity :=
      (if regex_test (regex T) (input_value st) \<and> length (getUnmaskedValue st) = digitCount T
       then [] else getErrorMessage st)\<rparr>)"
    using assms(2) ne by (rule validateInput_active)
  have g1: "\<exists>st'. validateInput st = Inr st'
            \<and> (customValidity st' = [] \<longleftrightarrow>
                 regex_test (regex T) (input_value st) \<and> length (getUnmaskedValue st) = digitCount T)
            \<and> (customValidity st' \<noteq> [] \<longrightarrow> customValidity st' = getErrorMessage st)"
    unfolding v using getErrorMessage_nonempty [of st] by simp
  let ?st = "phone_with [br_mobile] 0 ''(11) 9999-9999''"
  have a: "activeMaskData ?st = Some (parsed br_mobile)" "activeMaskIndex ?st \<noteq> - 1"
    by (simp_all add: activeMaskData_def phone_with_def)
  have dc: "digitCount (parsed br_mobile) = 11"
    by (simp add: parsed_fields br_mobile_def count_placeholders_def)
  have rt: "regex_test (regex (parsed br_mobile)) ''(11) 9999-9999''"
    by (simp add: parsed_fields br_mobile_def item_of_def is_digit_def)
  have ln: "length (stripNonDigits ''(11) 9999-9999'') = 10"
    by (simp add: stripNonDigits_def is_digit_def)
  have iv: "input_value ?st = ''(11) 9999-9999''" by (simp add: phone_with_def)
  have ex: "map_sum id customValidity (validateInput ?st) = Inr DEFAULT_MESSAGES_en"
    unfolding validateInput_active [OF a] getUnmaskedValue_def iv ln dc
    by (simp add: getErrorMessage_phone_with)
  show ?thesis using g1 getErrorMessage_nonempty [of st] dc rt ln ex by blast
qed

theorem validateInput_pattern_and_digit_count_witness:
  "constructed (phone_with [br_mobile] 0 ''(11) 99999-9999'')
   \<and> activeMaskData (phone_with [br_mobile] 0 ''(11) 99999-9999'') = Some (parsed br_mobile)
   \<and> regex_test (regex (parsed br_mobile)) (input_value (phone_with [br_mobile] 0 ''(11) 99999-9999''))
   \<and> length (getUnmaskedValue (phone_with [br_mobile] 0 ''(11) 99999-9999'')) = digitCount (parsed br_mobile)
   \<and> (\<exists>st'. validateInput (phone_with [br_mobile] 0 ''(11) 99999-9999'') = Inr st'
         \<and> customValidity st' = [])"
proof -
  let ?st = "phone_with [br_mobile] 0 ''(11) 99999-9999''"
  have c: "constructed ?st" by (rule constructed_phone_with) simp
  have a: "activeMaskData ?st = Some (parsed br_mobile)"
    by (simp add: activeMaskData_def phone_with_def)
  have r: "regex_test (regex (parsed br_mobile)) (input_value ?st)"
    by (simp add: phone_with_def parsed_fields br_mobile_def item_of_def is_digit_def)
  have l: "length (getUnmaskedValue ?st) = digitCount (parsed br_mobile)"
    by (simp add: getUnmaskedValue_def phone_with_def stripNonDigits_def is_digit_def
        parsed_fields br_mobile_def count_placeholders_def)
  show ?thesis
    using validateInput_pattern_and_digit_count [OF c a] c a r l by blast
qed

theorem br_mobile_has_eleven_placeholders:
  "digitCount (parsed br_mobile) = 11 \<and> digitCount (parsed br_mobile) \<noteq> 9
   \<and> length (stripNonDigits ''(11) 9999-9999'') = 10"
  by (simp add: parsed_fields br_mobile_def count_placeholders_def stripNonDigits_def is_digit_def)

section \<open>Backspace on a rendered field\<close>

lemma stripNonDigits_fill:
  "list_all (\<lambda>c. \<not> is_digit c) m \<Longrightarrow> list_all is_digit D \<Longrightarrow>
   stripNonDigits (fill m D) = take (count_placeholders m) D"
proof (induction m arbitrary: D)
  case Nil
  show ?case by (simp add: stripNonDigits_def count_placeholders_def)
next
  case (Cons c m)
  show ?case
  proof (cases "c = CHR ''#''")
    case False
    then show ?thesis using Cons.IH [of D] Cons.prems
      by (simp add: stripNonDigits_def count_placeholders_def)
  next
    case True
    show ?thesis
    proof (cases D)
      case Nil
      then show ?thesis using True Cons.IH [of "[]"] Cons.prems
        by (simp add: stripNonDigits_def count_placeholders_def)
    next
      case (Cons d D')
      then show ?thesis using True Cons.IH [of D'] Cons.prems
        by (simp add: stripNonDigits_def count_placeholders_def)
    qed
  qed
qed

lemma fill_at_placeholder:
  "q < length m \<Longrightarrow> m ! q = CHR ''#'' \<Longrightarrow> count_placeholders (take q m) < length D \<Longrightarrow>
   q < length (fill m D) \<and> fill m D ! q = D ! count_placeholders (take q m)"
proof (induction m arbitrary: q D)
  case Nil
  then show ?case by simp
next
  case (Cons c m)
  show ?case
  proof (cases q)
    case 0
    then have "c = CHR ''#''" using Cons.prems(2) by simp
    then show ?thesis using 0 Cons.prems(3) by (cases D) (simp_all add: count_placeholders_def)
  next
    case (Suc q')
    show ?thesis
    proof (cases "c = CHR ''#''")
      case False
      then show ?thesis using Suc Cons.IH [of q' D] Cons.prems
        by (simp add: count_placeholders_def)
    next
      case True
      then obtain d D' where D: "D = d # D'" using Suc Cons.prems(3)
        by (cases D) (simp_all add: count_placeholders_def)
      then show ?thesis using True Suc Cons.IH [of q' D'] Cons.prems
        by (simp add: count_placeholders_def)
    qed
  qed
qed

lemma count_placeholders_take_less:
  "q < length m \<Longrightarrow> m ! q = CHR ''#'' \<Longrightarrow> count_placeholders (take q m) < count_placeholders m"
proof -
  assume a: "q < length m" "m ! q = CHR ''#''"
  have "m = take q m @ m ! q # drop (Suc q) m" using a(1) by (simp add: id_take_nth_drop [symmetric])
  then have "count_placeholders m = count_placeholders (take q m) + count_placeholders (m ! q # drop (Suc q) m)"
    unfolding count_placeholders_def by (metis filter_append length_append)
  then show ?thesis using a(2) by (simp add: count_placeholders_def)
qed

lemma setCursorPosition_total:
  assumes "constructed st"
  shows "\<exists>p. setCursorPositionInFormatted st k = Inr p"
proof (cases "activeMaskIndex st = - 1")
  case True
  then show ?thesis by (simp add: setCursorPositionInFormatted_def)
next
  case False
  show ?thesis
    using setCursorPosition_active [OF assms constructed_active(1) [OF assms False], of k] by simp
qed

lemma list_all_digit_strip: "list_all is_digit D \<Longrightarrow> stripNonDigits D = D"
  by (simp add: stripNonDigits_def list_all_iff)

lemma backspace_filled:
  assumes "constructed st" and "activeMaskData st = Some T"
    and "list_all (\<lambda>c. \<not> is_digit c) (mask_str T)"
    and "list_all is_digit D" and "input_value st = render T D"
    and "q < start" and "q < length (mask_str T)" and "mask_str T ! q = CHR ''#''"
    and "\<forall>r. q < r \<and> r < start \<and> r < length (mask_str T) \<longrightarrow> mask_str T ! r \<noteq> CHR ''#''"
    and "count_placeholders (take q (mask_str T)) < length D"
  shows "getUnmaskedValue st = take (digitCount T) D"
    and "input_value st ! q = D ! count_placeholders (take q (mask_str T))"
    and "getUnmaskedValue st ! count_placeholders (take q (mask_str T))
           = D ! count_placeholders (take q (mask_str T))"
    and "count_placeholders (take q (mask_str T)) < length (getUnmaskedValue st)"
    and "deleteDigits st 8 start start =
           Inr (take (count_placeholders (take q (mask_str T))) (getUnmaskedValue st)
                  @ drop (Suc (count_placeholders (take q (mask_str T)))) (getUnmaskedValue st),
                count_placeholders (take q (mask_str T)))"
    and "Suc (length (take (count_placeholders (take q (mask_str T))) (getUnmaskedValue st)
                  @ drop (Suc (count_placeholders (take q (mask_str T)))) (getUnmaskedValue st)))
           = length (getUnmaskedValue st)"
proof -
  have p: "parseMask (mask_str T) = Inr T" using assms(1,2) by (rule getCursorPos_active(3))
  have dc: "digitCount T = count_placeholders (mask_str T)" using assms(1,2) by (rule getCursorPos_active(5))
  have r: "input_value st = fill (mask_str T) D" using assms(5) render_fill [OF p] by simp
  show u: "getUnmaskedValue st = take (digitCount T) D"
    using stripNonDigits_fill [OF assms(3,4)] r dc by (simp add: getUnmaskedValue_def)
  show "input_value st ! q = D ! count_placeholders (take q (mask_str T))"
    using fill_at_placeholder [OF assms(7,8,10)] r by simp
  have lt: "count_placeholders (take q (mask_str T)) < digitCount T"
    using count_placeholders_take_less [OF assms(7,8)] dc by simp
  show "getUnmaskedValue st ! count_placeholders (take q (mask_str T))
           = D ! count_placeholders (take q (mask_str T))"
    using u lt by simp
  show l: "count_placeholders (take q (mask_str T)) < length (getUnmaskedValue st)"
    using u lt assms(10) by simp
  show "deleteDigits st 8 start start =
           Inr (take (count_placeholders (take q (mask_str T))) (getUnmaskedValue st)
                  @ drop (Suc (count_placeholders (take q (mask_str T)))) (getUnmaskedValue st),
                count_placeholders (take q (mask_str T)))"
    using assms(1,2,6,7,8,9) by (rule backspace_found)
  show "Suc (length (take (count_placeholders (take q (mask_str T))) (getUnmaskedValue st)
                  @ drop (Suc (count_placeholders (take q (mask_str T)))) (getUnmaskedValue st)))
           = length (getUnmaskedValue st)"
    using l by simp
qed

lemma handleKeyDown_backspace_rerenders:
  assumes "constructed st" and "activeMaskData st = Some T"
    and "deleteDigits st 8 start start = Inr (new, c)" and "list_all is_digit new"
  shows "\<exists>st' p. handleKeyDown st backspace_key start start = Inr (st', True, Some p)
    \<and> constructed st'
    \<and> (new = [] \<longrightarrow> input_value st' = [] \<and> activeMaskIndex st' = - 1)
    \<and> (new \<noteq> [] \<longrightarrow> 0 \<le> activeMaskIndex st'
          \<and> input_value st' = render (masksData st ! nat (activeMaskIndex st')) new)"
proof -
  have k: "handleKeyDown st backspace_key start start =
      bind_err (setValue st (Some new)) (\<lambda>st1.
        bind_err (setCursorPositionInFormatted st1 c) (\<lambda>p. Inr (st1, True, Some p)))"
    using handleKeyDown_delete [of backspace_key st start start] assms(3)
    by (simp add: backspace_key_def bind_err_def)
  have ne: "masksData st \<noteq> []"
    using assms(2) by (auto simp add: activeMaskData_def split: if_splits)
  show ?thesis
  proof (cases "new = []")
    case True
    define st' where "st' = st\<lparr>input_value := [], activeMaskIndex := - 1,
       customValidity := getErrorMessage (st\<lparr>input_value := [], activeMaskIndex := - 1\<rparr>)\<rparr>"
    have s: "setValue st (Some new) = Inr st'"
      unfolding st'_def using True by (simp add: setValue_empty)
    have c': "constructed st'" using assms(1) by (simp add: st'_def constructed_def)
    have f: "input_value st' = []" "activeMaskIndex st' = - 1" by (simp_all add: st'_def)
    have "setCursorPositionInFormatted st' c = Inr c"
      using f(2) by (simp add: setCursorPositionInFormatted_def)
    then have "handleKeyDown st backspace_key start start = Inr (st', True, Some c)"
      using k s by (simp add: bind_err_def)
    then show ?thesis using c' f True by blast
  next
    case False
    obtain st' where s: "setValue st (Some new) = Inr st'" "constructed st'"
      "0 \<le> activeMaskIndex st'"
      "input_value st' = render (masksData st ! nat (activeMaskIndex st')) (stripNonDigits new)"
      using setValue_selects [OF assms(1) ne False] by blast
    obtain p where p: "setCursorPositionInFormatted st' c = Inr p"
      using setCursorPosition_total [OF s(2), of c] by blast
    have "handleKeyDown st backspace_key start start = Inr (st', True, Some p)"
      using k s(1) p by (simp add: bind_err_def)
    then show ?thesis using s(2,3,4) False list_all_digit_strip [OF assms(4)] by auto
  qed
qed

lemma list_all_digit_remove:
  "list_all is_digit u \<Longrightarrow> list_all is_digit (take c u @ drop (Suc c) u)"
  by (auto simp add: list_all_iff dest: in_set_takeD in_set_dropD)

lemma backspace_prefixed_mask:
  "deleteDigits (phone_with [br_prefixed] 0 ''+55 (11) 34'') 8 11 11 = Inr (''55134'', 3)
   \<and> key_outcome (handleKeyDown (phone_with [br_prefixed] 0 ''+55 (11) 34'') backspace_key 11 11)
       = Inr ((0, ''+55 (55) 13''), True, Some 10)"
proof -
  let ?st = "phone_with [br_prefixed] 0 ''+55 (11) 34''"
  have c: "constructed ?st" by (rule constructed_phone_with) simp
  have a: "activeMaskData ?st = Some (parsed br_prefixed)"
    by (simp add: activeMaskData_def phone_with_def)
  have m: "masksData ?st = [parsed br_prefixed]" by (simp add: phone_with_def)
  have u: "getUnmaskedValue ?st = ''551134''"
    by (simp add: getUnmaskedValue_def phone_with_def stripNonDigits_def is_digit_def)
  have n: "\<forall>r. 10 < r \<and> r < 11 \<and> r < length (mask_str (parsed br_prefixed))
      \<longrightarrow> mask_str (parsed br_prefixed) ! r \<noteq> CHR ''#''"
    by arith
  have d: "deleteDigits ?st 8 11 11 = Inr (''55134'', 3)"
    using backspace_found [OF c a _ _ _ n] unfolding u
    by (simp add: parsed_fields br_prefixed_def count_placeholders_def)
  have ne: "''55134'' \<noteq> []" by simp
  have nem: "masksData ?st \<noteq> []" by (simp add: m)
  have sd: "stripNonDigits ''55134'' = ''55134''"
    by (simp add: stripNonDigits_def is_digit_def)
  have sb: "selectBest [parsed br_prefixed] ''55134'' = (0, 1, ''+55 (55) 13'')"
    by (simp add: selectBest_def select_loop.simps select_step_def render_parsed parsed_fields
        br_prefixed_def item_of_def is_digit_def count_placeholders_def Let_def one_enat_def)
  obtain st1 where s1: "setValue ?st (Some ''55134'') = Inr st1" "constructed st1"
    "masksData st1 = masksData ?st"
    "activeMaskIndex st1 = fst (selectBest (masksData ?st) (stripNonDigits ''55134''))"
    "input_value st1 = render (masksData ?st ! nat (activeMaskIndex st1)) (stripNonDigits ''55134'')"
    using setValue_selects [OF c nem ne] by blast
  have i1: "activeMaskIndex st1 = 0" using s1(4) unfolding m sd sb by simp
  have v1: "input_value st1 = ''+55 (55) 13''"
    using s1(5) unfolding m sd i1 by (simp add: render_parsed br_prefixed_def)
  have a1: "activeMaskData st1 = Some (parsed br_prefixed)"
    using i1 s1(3) m by (simp add: activeMaskData_def)
  have p1: "setCursorPositionInFormatted st1 3 = Inr 10"
    using setCursorPosition_active [OF s1(2) a1, of 3]
    by (simp add: parsed_fields br_prefixed_def)
  have "handleKeyDown ?st backspace_key 11 11 = Inr (st1, True, Some 10)"
    using d s1(1) p1
    by (simp add: handleKeyDown_delete backspace_key_def bind_err_def)
  then show ?thesis using d i1 v1 by (simp add: key_outcome_def)
qed

text \<open>
  On a field that holds fewer digits than the template has placeholders, the positions of
  the field after the first unfilled placeholder are not those of the template, which the
  search walks: Backspace at the end of \<open>(1) -\<close> finds the second placeholder, which holds
  no digit, and removes nothing.
\<close>

lemma backspace_at_end_of_partial_render:
  "render (parsed br_mobile) ''1'' = ''(1) -''
   \<and> deleteDigits (phone_with [br_mobile] 0 ''(1) -'') 8 5 5 = Inr (''1'', 1)"
proof -
  let ?st = "phone_with [br_mobile] 0 ''(1) -''"
  have c: "constructed ?st" by (rule constructed_phone_with) simp
  have a: "activeMaskData ?st = Some (parsed br_mobile)"
    by (simp add: activeMaskData_def phone_with_def)
  have u: "getUnmaskedValue ?st = ''1''"
    by (simp add: getUnmaskedValue_def phone_with_def stripNonDigits_def is_digit_def)
  have n: "\<forall>r. 2 < r \<and> r < 5 \<and> r < length (mask_str (parsed br_mobile))
      \<longrightarrow> mask_str (parsed br_mobile) ! r \<noteq> CHR ''#''"
  proof (intro allI impI)
    fix r :: nat
    assume "2 < r \<and> r < 5 \<and> r < length (mask_str (parsed br_mobile))"
    then have "r = 3 \<or> r = 4" by arith
    then show "mask_str (parsed br_mobile) ! r \<noteq> CHR ''#''"
      by (auto simp add: parsed_fields br_mobile_def)
  qed
  have d: "deleteDigits ?st 8 5 5 = Inr (''1'', 1)"
    using backspace_found [OF c a _ _ _ n] unfolding u
    by (simp add: parsed_fields br_mobile_def count_placeholders_def)
  show ?thesis using d by (simp add: render_parsed br_mobile_def)
qed

section \<open>The claim about Backspace\<close>

text \<open>
  C7, as amended. Backspace removes a character of the digits stripped from the field, at
  the number of the nearest placeholder before the cursor. That character is the digit the
  placeholder holds when the field is the rendering of a digit sequence into a template
  that has no digit among its literals, and the placeholder is filled: then the digit shown
  at the placeholder's position is removed, the digit sequence gets one shorter, and the
  field is rendered anew from it by \<open>setValue\<close>, literals included. When no placeholder lies
  before the cursor nothing is removed. For \<open>(##) #####-####\<close> holding \<open>11999999999\<close> and
  the cursor at position 5, the digit at unmasked offset 1 goes and the field reads
  \<open>(19) 99999-999\<close>.
\<close>

theorem backspace_removes_digit_of_nearest_placeholder:
  assumes "constructed st" and "activeMaskData st = Some T"
  shows "(list_all (\<lambda>c. \<not> is_digit c) (mask_str T) \<and> list_all is_digit D
          \<and> input_value st = render T D
          \<and> q < start \<and> q < length (mask_str T) \<and> mask_str T ! q = CHR ''#''
          \<and> (\<forall>r. q < r \<and> r < start \<and> r < length (mask_str T) \<longrightarrow> mask_str T ! r \<noteq> CHR ''#'')
          \<and> placeholder_number (mask_str T) q < length D
        \<longrightarrow> getUnmaskedValue st = take (digitCount T) D
            \<and> input_value st ! q = D ! placeholder_number (mask_str T) q
            \<and> getUnmaskedValue st ! placeholder_number (mask_str T) q
                 = D ! placeholder_number (mask_str T) q
            \<and> deleteDigits st 8 start start =
                 Inr (delete_at (placeholder_number (mask_str T) q) (getUnmaskedValue st),
                      placeholder_number (mask_str T) q)
            \<and> Suc (length (delete_at (placeholder_number (mask_str T) q) (getUnmaskedValue st)))
                 = length (getUnmaskedValue st)
            \<and> (\<exists>st' p. handleKeyDown st backspace_key start start = Inr (st', True, Some p)
                  \<and> constructed st'
                  \<and> (delete_at (placeholder_number (mask_str T) q) (getUnmaskedValue st) = []
                        \<longrightarrow> input_value st' = [] \<and> activeMaskIndex st' = - 1)
                  \<and> (delete_at (placeholder_number (mask_str T) q) (getUnmaskedValue st) \<noteq> []
                        \<longrightarrow> 0 \<le> activeMaskIndex st'
                          \<and> input_value st' =
                              render (masksData st ! nat (activeMaskIndex st'))
                                (delete_at (placeholder_number (mask_str T) q) (getUnmaskedValue st)))))
    \<and> ((\<forall>r. r < start \<and> r < length (mask_str T) \<longrightarrow> mask_str T ! r \<noteq> CHR ''#'')
        \<longrightarrow> deleteDigits st 8 start start = Inr (getUnmaskedValue st, 0))
    \<and> handleKeyDown st backspace_key start start =
        bind_err (deleteDigits st 8 start start) (\<lambda>(newUnmaskedValue, cursorPos).
          bind_err (setValue st (Some newUnmaskedValue)) (\<lambda>st1.
            bind_err (setCursorPositionInFormatted st1 cursorPos) (\<lambda>p. Inr (st1, True, Some p))))
    \<and> deleteDigits (phone_with [br_mobile] 0 ''(11) 99999-9999'') 8 5 5 = Inr (''1999999999'', 1)
    \<and> key_outcome (handleKeyDown (phone_with [br_mobile] 0 ''(11) 99999-9999'') backspace_key 5 5)
        = Inr ((0, ''(19) 99999-999''), True, Some 2)"
proof -
  have k: "handleKeyDown st backspace_key start start =
        bind_err (deleteDigits st 8 start start) (\<lambda>(newUnmaskedValue, cursorPos).
          bind_err (setValue st (Some newUnmaskedValue)) (\<lambda>st1.
            bind_err (setCursorPositionInFormatted st1 cursorPos) (\<lambda>p. Inr (st1, True, Some p))))"
    using handleKeyDown_delete [of backspace_key st start start] by (simp add: backspace_key_def)
  have g1: "list_all (\<lambda>c. \<not> is_digit c) (mask_str T) \<and> list_all is_digit D
          \<and> input_value st = render T D
          \<and> q < start \<and> q < length (mask_str T) \<and> mask_str T ! q = CHR ''#''
          \<and> (\<forall>r. q < r \<and> r < start \<and> r < length (mask_str T) \<longrightarrow> mask_str T ! r \<noteq> CHR ''#'')
          \<and> placeholder_number (mask_str T) q < length D
        \<longrightarrow> getUnmaskedValue st = take (digitCount T) D
            \<and> input_value st ! q = D ! placeholder_number (mask_str T) q
            \<and> getUnmaskedValue st ! placeholder_number (mask_str T) q
                 = D ! placeholder_number (mask_str T) q
            \<and> deleteDigits st 8 start start =
                 Inr (delete_at (placeholder_number (mask_str T) q) (getUnmaskedValue st),
                      placeholder_number (mask_str T) q)
            \<and> Suc (length (delete_at (placeholder_number (mask_str T) q) (getUnmaskedValue st)))
                 = length (getUnmaskedValue st)
            \<and> (\<exists>st' p. handleKeyDown st backspace_key start start = Inr (st', True, Some p)
                  \<and> constructed st'
                  \<and> (delete_at (placeholder_number (mask_str T) q) (getUnmaskedValue st) = []
                        \<longrightarrow> input_value st' = [] \<and> activeMaskIndex st' = - 1)
                  \<and> (delete_at (placeholder_number (mask_str T) q) (getUnmaskedValue st) \<noteq> []
                        \<longrightarrow> 0 \<le> activeMaskIndex st'
                          \<and> input_value st' =
                              render (masksData st ! nat (activeMaskIndex st'))
                                (delete_at (placeholder_number (mask_str T) q) (getUnmaskedValue st))))"
  proof
    assume h: "list_all (\<lambda>c. \<not> is_digit c) (mask_str T) \<and> list_all is_digit D
          \<and> input_value st = render T D
          \<and> q < start \<and> q < length (mask_str T) \<and> mask_str T ! q = CHR ''#''
          \<and> (\<forall>r. q < r \<and> r < start \<and> r < length (mask_str T) \<longrightarrow> mask_str T ! r \<noteq> CHR ''#'')
          \<and> placeholder_number (mask_str T) q < length D"
    then have h1: "list_all (\<lambda>c. \<not> is_digit c) (mask_str T)" and h2: "list_all is_digit D"
      and h3: "input_value st = render T D" and h4: "q < start"
      and h5: "q < length (mask_str T)" and h6: "mask_str T ! q = CHR ''#''"
      and h7: "\<forall>r. q < r \<and> r < start \<and> r < length (mask_str T) \<longrightarrow> mask_str T ! r \<noteq> CHR ''#''"
      and h8: "count_placeholders (take q (mask_str T)) < length D"
      by (simp_all add: placeholder_number_def)
    note b = backspace_filled [OF assms h1 h2 h3 h4 h5 h6 h7 h8, folded placeholder_number_def delete_at_def]
    have dg: "list_all is_digit (getUnmaskedValue st)"
      by (simp add: getUnmaskedValue_def list_all_stripNonDigits)
    have dn: "list_all is_digit (delete_at (placeholder_number (mask_str T) q) (getUnmaskedValue st))"
      unfolding delete_at_def using dg by (rule list_all_digit_remove)
    note r = handleKeyDown_backspace_rerenders [OF assms b(5) dn]
    show "getUnmaskedValue st = take (digitCount T) D
            \<and> input_value st ! q = D ! placeholder_number (mask_str T) q
            \<and> getUnmaskedValue st ! placeholder_number (mask_str T) q
                 = D ! placeholder_number (mask_str T) q
            \<and> deleteDigits st 8 start start =
                 Inr (delete_at (placeholder_number (mask_str T) q) (getUnmaskedValue st),
                      placeholder_number (mask_str T) q)
            \<and> Suc (length (delete_at (placeholder_number (mask_str T) q) (getUnmaskedValue st)))
                 = length (getUnmaskedValue st)
            \<and> (\<exists>st' p. handleKeyDown st backspace_key start start = Inr (st', True, Some p)
                  \<and> constructed st'
                  \<and> (delete_at (placeholder_number (mask_str T) q) (getUnmaskedValue st) = []
                        \<longrightarrow> input_value st' = [] \<and> activeMaskIndex st' = - 1)
                  \<and> (delete_at (placeholder_number (mask_str T) q) (getUnmaskedValue st) \<noteq> []
                        \<longrightarrow> 0 \<le> activeMaskIndex st'
                          \<and> input_value st' =
                              render (masksData st ! nat (activeMaskIndex st'))
                                (delete_at (placeholder_number (mask_str T) q) (getUnmaskedValue st))))"
      using b(1,2,3,5,6) r by blast
  qed
  show ?thesis
    using g1 backspace_nothing [OF assms, of start] k backspace_after_area_code by blast
qed

theorem backspace_removes_digit_of_nearest_placeholder_witness:
  "constructed (phone_with [br_mobile] 0 ''(11) 99999-9999'')
   \<and> activeMaskData (phone_with [br_mobile] 0 ''(11) 99999-9999'') = Some (parsed br_mobile)
   \<and> list_all (\<lambda>c. \<not> is_digit c) (mask_str (parsed br_mobile))
   \<and> list_all is_digit ''11999999999''
   \<and> input_value (phone_with [br_mobile] 0 ''(11) 99999-9999'') = render (parsed br_mobile) ''11999999999''
   \<and> placeholder_number (mask_str (parsed br_mobile)) 2 < length ''11999999999''
   \<and> input_value (phone_with [br_mobile] 0 ''(11) 99999-9999'') ! 2 = CHR ''1''
   \<and> deleteDigits (phone_with [br_mobile] 0 ''(11) 99999-9999'') 8 4 4 = Inr (''1999999999'', 1)
   \<and> deleteDigits (phone_with [br_mobile] 0 ''(11) 99999-9999'') 8 1 1 = Inr (''11999999999'', 0)"
proof -
  let ?st = "phone_with [br_mobile] 0 ''(11) 99999-9999''"
  have c: "constructed ?st" by (rule constructed_phone_with) simp
  have a: "activeMaskData ?st = Some (parsed br_mobile)"
    by (simp add: activeMaskData_def phone_with_def)
  have u: "getUnmaskedValue ?st = ''11999999999''"
    by (simp add: getUnmaskedValue_def phone_with_def stripNonDigits_def is_digit_def)
  have l: "list_all (\<lambda>c. \<not> is_digit c) (mask_str (parsed br_mobile))"
    by (simp add: parsed_fields br_mobile_def is_digit_def)
  have d: "list_all is_digit ''11999999999''" by (simp add: is_digit_def)
  have v: "input_value ?st = render (parsed br_mobile) ''11999999999''"
    by (simp add: phone_with_def render_parsed br_mobile_def)
  have n4: "\<forall>r. 2 < r \<and> r < 4 \<and> r < length (mask_str (parsed br_mobile))
      \<longrightarrow> mask_str (parsed br_mobile) ! r \<noteq> CHR ''#''"
  proof (intro allI impI)
    fix r :: nat
    assume "2 < r \<and> r < 4 \<and> r < length (mask_str (parsed br_mobile))"
    then have "r = 3" by arith
    then show "mask_str (parsed br_mobile) ! r \<noteq> CHR ''#''"
      by (simp add: parsed_fields br_mobile_def)
  qed
  have n1: "\<forall>r. r < 1 \<and> r < length (mask_str (parsed br_mobile))
      \<longrightarrow> mask_str (parsed br_mobile) ! r \<noteq> CHR ''#''"
    by (simp add: parsed_fields br_mobile_def)
  have q: "(2::nat) < 4 \<and> 2 < length (mask_str (parsed br_mobile))
      \<and> mask_str (parsed br_mobile) ! 2 = CHR ''#''"
    by (simp add: parsed_fields br_mobile_def)
  have c2: "placeholder_number (mask_str (parsed br_mobile)) 2 = 1"
    by (simp add: placeholder_number_def parsed_fields br_mobile_def count_placeholders_def)
  have f: "placeholder_number (mask_str (parsed br_mobile)) 2 < length ''11999999999''"
    unfolding c2 by simp
  note t = backspace_removes_digit_of_nearest_placeholder [OF c a]
  have "input_value ?st ! 2 = ''11999999999'' ! placeholder_number (mask_str (parsed br_mobile)) 2
      \<and> deleteDigits ?st 8 4 4 =
          Inr (delete_at (placeholder_number (mask_str (parsed br_mobile)) 2) (getUnmaskedValue ?st),
               placeholder_number (mask_str (parsed br_mobile)) 2)"
    using t [of "''11999999999''" 2 4] l d v q n4 f by blast
  then have g: "input_value ?st ! 2 = CHR ''1'' \<and> deleteDigits ?st 8 4 4 = Inr (''1999999999'', 1)"
    unfolding c2 u by (simp add: delete_at_def)
  have d1: "deleteDigits ?st 8 1 1 = Inr (''11999999999'', 0)"
    using t [of "''11999999999''" 0 1] n1 unfolding u by blast
  show ?thesis using c a l d v f g d1 by blast
qed

theorem backspace_with_digit_literal_removes_another_digit:
  "render (parsed br_prefixed) ''1134'' = ''+55 (11) 34''
   \<and> activeMaskData (phone_with [br_prefixed] 0 ''+55 (11) 34'') = Some (parsed br_prefixed)
   \<and> mask_str (parsed br_prefixed) ! 10 = CHR ''#''
   \<and> placeholder_number (mask_str (parsed br_prefixed)) 10 = 3
   \<and> ''1134'' ! 3 = CHR ''4''
   \<and> delete_at 3 ''1134'' = ''113''
   \<and> render (parsed br_prefixed) ''113'' = ''+55 (11) 3''
   \<and> deleteDigits (phone_with [br_prefixed] 0 ''+55 (11) 34'') 8 11 11 = Inr (''55134'', 3)
   \<and> key_outcome (handleKeyDown (phone_with [br_prefixed] 0 ''+55 (11) 34'') backspace_key 11 11)
       = Inr ((0, ''+55 (55) 13''), True, Some 10)"
  using backspace_prefixed_mask
  by (simp add: render_parsed parsed_fields br_prefixed_def activeMaskData_def phone_with_def
      placeholder_number_def count_placeholders_def delete_at_def)

section \<open>Failures\<close>








text \<open>
  Two failures outside the constructor. With no active mask (an empty field), the Delete
  branch of \<open>handleKeyDown\<close> reads \<open>maskData.mask\<close> of an \<open>undefined\<close> \<open>maskData\<close>. And the
  constructor accepts an element that is no text field, on which validation then fails.
\<close>

lemma delete_key_in_empty_field_throws:
  "handleKeyDown (phone_with [br_mobile] (- 1) []) delete_key 0 0 = Inl TypeError"
  by (simp add: handleKeyDown_delete delete_key_def deleteDigits_def bind_err_def Let_def
      getCursorPosInUnmaskedValue_def activeMaskData_def phone_with_def
      nextDigit_loop.simps [of None])

lemma validation_on_other_element_throws:
  "PhoneNumberMask example_document languages (Selector ''#box'') default_options
     = Inr (OnOther [parsed br_mobile])
   \<and> instance_validateInput (OnOther [parsed br_mobile]) = Inl TypeError
   \<and> instance_setValue (OnOther [parsed br_mobile]) (Some ''1'') = Inl TypeError
   \<and> instance_handleInput (OnOther [parsed br_mobile]) insert_text 1 = Inl TypeError"
  by (simp add: PhoneNumberMask_def PhoneNumberMask_input_def example_document_def
      default_options_def bind_err_def parseMask_parsed br_mobile_def
      instance_validateInput_def instance_setValue_def instance_handleInput_def insert_text_def)




end
